theory Spec2Isabelle
  imports Complex_Main
begin

section \<open>Python values used by the optimisation front end\<close>

text \<open>
  A Python float is a finite number, plus or minus infinity, or NaN. Bounds and guesses
  are such floats. The numbers an engine returns and the values of evaluated expressions
  are finite floats and are written as real numbers.
\<close>

datatype pyfloat = NegInf | Fin real | PosInf | NaN

text \<open>Comparison: every comparison with NaN is false.\<close>

fun pf_less :: "pyfloat \<Rightarrow> pyfloat \<Rightarrow> bool" where
  "pf_less NaN _ = False"
| "pf_less _ NaN = False"
| "pf_less NegInf NegInf = False"
| "pf_less NegInf _ = True"
| "pf_less (Fin a) NegInf = False"
| "pf_less (Fin a) (Fin b) = (a < b)"
| "pf_less (Fin a) PosInf = True"
| "pf_less PosInf _ = False"

text \<open>
  Float arithmetic. The result of an operation on two finite floats is its exact result
  rounded to a float, or an infinity when it overflows; the rounding \<open>rd\<close> (exact result
  to float) belongs to the platform and is a parameter. The other cases are those of the
  floating-point standard; signed zeros are not told apart.
\<close>

fun pf_add :: "(real \<Rightarrow> pyfloat) \<Rightarrow> pyfloat \<Rightarrow> pyfloat \<Rightarrow> pyfloat" where
  "pf_add rd NaN _ = NaN"
| "pf_add rd _ NaN = NaN"
| "pf_add rd (Fin a) (Fin b) = rd (a + b)"
| "pf_add rd PosInf NegInf = NaN"
| "pf_add rd NegInf PosInf = NaN"
| "pf_add rd PosInf _ = PosInf"
| "pf_add rd _ PosInf = PosInf"
| "pf_add rd NegInf _ = NegInf"
| "pf_add rd _ NegInf = NegInf"

fun pf_sub :: "(real \<Rightarrow> pyfloat) \<Rightarrow> pyfloat \<Rightarrow> pyfloat \<Rightarrow> pyfloat" where
  "pf_sub rd NaN _ = NaN"
| "pf_sub rd _ NaN = NaN"
| "pf_sub rd (Fin a) (Fin b) = rd (a - b)"
| "pf_sub rd PosInf PosInf = NaN"
| "pf_sub rd NegInf NegInf = NaN"
| "pf_sub rd PosInf _ = PosInf"
| "pf_sub rd _ NegInf = PosInf"
| "pf_sub rd NegInf _ = NegInf"
| "pf_sub rd _ PosInf = NegInf"

fun pf_mul :: "(real \<Rightarrow> pyfloat) \<Rightarrow> pyfloat \<Rightarrow> pyfloat \<Rightarrow> pyfloat" where
  "pf_mul rd NaN _ = NaN"
| "pf_mul rd _ NaN = NaN"
| "pf_mul rd (Fin a) (Fin b) = rd (a * b)"
| "pf_mul rd (Fin a) PosInf = (if a = 0 then NaN else if 0 < a then PosInf else NegInf)"
| "pf_mul rd (Fin a) NegInf = (if a = 0 then NaN else if 0 < a then NegInf else PosInf)"
| "pf_mul rd PosInf (Fin b) = (if b = 0 then NaN else if 0 < b then PosInf else NegInf)"
| "pf_mul rd NegInf (Fin b) = (if b = 0 then NaN else if 0 < b then NegInf else PosInf)"
| "pf_mul rd PosInf PosInf = PosInf"
| "pf_mul rd PosInf NegInf = NegInf"
| "pf_mul rd NegInf PosInf = NegInf"
| "pf_mul rd NegInf NegInf = PosInf"

fun pf_abs :: "pyfloat \<Rightarrow> pyfloat" where
  "pf_abs NegInf = PosInf"
| "pf_abs (Fin a) = Fin \<bar>a\<bar>"
| "pf_abs PosInf = PosInf"
| "pf_abs NaN = NaN"

datatype error =
  ValueError | NotImplementedError | IndexError | KeyError | TypeError | AttributeError
  | RuntimeError

text \<open>
  The values the extraction methods of a result hand back: an optimal value that is still
  unset (\<open>None\<close>), a float, or a boolean flag.
\<close>

datatype pyval = PyNone | PyFloat real | PyBool bool

fun py_opt :: "real option \<Rightarrow> pyval" where
  "py_opt None = PyNone"
| "py_opt (Some v) = PyFloat v"

text \<open>
  A symbolic expression is represented by its numeric evaluator: the function from the
  values of the decision variables (in registration order) to the value of the expression.
\<close>

type_synonym SX = "real list \<Rightarrow> real"

section \<open>components.py\<close>

record result_component =
  rc_name :: "string option"
  rc_group :: "string option"
  optimal_value :: "real option"
  lower_bound_active :: bool
  upper_bound_active :: bool

definition ResultComponent :: "string option \<Rightarrow> string option \<Rightarrow> result_component" where
  "ResultComponent nm grp =
     \<lparr>rc_name = nm, rc_group = grp, optimal_value = None,
      lower_bound_active = False, upper_bound_active = False\<rparr>"

record optimization_component =
  name :: "string option"
  variable :: SX
  lower_bound :: pyfloat
  upper_bound :: pyfloat
  group :: "string option"

record decision_variable = optimization_component +
  is_discrete :: bool

definition OptimizationComponent ::
  "SX \<Rightarrow> pyfloat \<Rightarrow> pyfloat \<Rightarrow> string option \<Rightarrow> string option \<Rightarrow> optimization_component" where
  "OptimizationComponent var lb ub nm grp =
     \<lparr>name = nm, variable = var, lower_bound = lb, upper_bound = ub, group = grp\<rparr>"

definition DecisionVariable ::
  "SX \<Rightarrow> pyfloat \<Rightarrow> pyfloat \<Rightarrow> string option \<Rightarrow> string option \<Rightarrow> bool \<Rightarrow> decision_variable" where
  "DecisionVariable var lb ub nm grp disc =
     optimization_component.extend (OptimizationComponent var lb ub nm grp)
       (decision_variable.fields disc)"

definition Constraint ::
  "SX \<Rightarrow> pyfloat \<Rightarrow> pyfloat \<Rightarrow> string option \<Rightarrow> string option \<Rightarrow> optimization_component" where
  "Constraint equation lb ub nm grp = OptimizationComponent equation lb ub nm grp"

definition Objective :: "SX \<Rightarrow> string option \<Rightarrow> string option \<Rightarrow> optimization_component" where
  "Objective equation nm grp = OptimizationComponent equation NegInf PosInf nm grp"

definition to_result_component :: "'a optimization_component_scheme \<Rightarrow> result_component" where
  "to_result_component c = ResultComponent (name c) (group c)"

section \<open>result.py\<close>

record optimization_result =
  r_constraints :: "result_component list"
  r_objectives :: "result_component list"
  r_decision_variables :: "result_component list"

definition OptimizationResult :: optimization_result where
  "OptimizationResult = \<lparr>r_constraints = [], r_objectives = [], r_decision_variables = []\<rparr>"

text \<open>What an extraction method returns: a list when \<open>as_dict\<close> is false, a dict otherwise.\<close>

datatype extraction = As_list "pyval list" | As_dict "string option \<rightharpoonup> pyval"

definition extract_optimal_values ::
  "bool \<Rightarrow> string option \<Rightarrow> result_component list \<Rightarrow> extraction" where
  "extract_optimal_values as_dict grp category =
     (let (out_list, out_dict) =
        (case grp of
           None \<Rightarrow>
             (let out_list = map (\<lambda>obj. py_opt (optimal_value obj)) category
              in (out_list,
                  foldl (\<lambda>d (count, obj). d(rc_name obj \<mapsto> out_list ! count))
                    Map.empty (enumerate 0 category)))
         | Some g \<Rightarrow>
             (map (\<lambda>obj. py_opt (optimal_value obj))
                (filter (\<lambda>obj. rc_group obj = Some g) category),
              foldl (\<lambda>d (count, obj). d(rc_name obj \<mapsto> py_opt (optimal_value obj)))
                Map.empty (enumerate 0 (filter (\<lambda>obj. rc_group obj = Some g) category))))
      in if as_dict then As_dict out_dict else As_list out_list)"

definition extract_active_upper_bound ::
  "bool \<Rightarrow> string option \<Rightarrow> result_component list \<Rightarrow> extraction" where
  "extract_active_upper_bound as_dict grp category =
     (let (out_list, out_dict) =
        (case grp of
           None \<Rightarrow>
             (let out_list = map (\<lambda>obj. py_opt (optimal_value obj)) category
              in (out_list,
                  foldl (\<lambda>d (count, obj). d(rc_name obj \<mapsto> out_list ! count))
                    Map.empty (enumerate 0 category)))
         | Some g \<Rightarrow>
             (map (\<lambda>obj. py_opt (optimal_value obj))
                (filter (\<lambda>obj. rc_group obj = Some g) category),
              foldl (\<lambda>d (count, obj). d(rc_name obj \<mapsto> py_opt (optimal_value obj)))
                Map.empty (enumerate 0 (filter (\<lambda>obj. rc_group obj = Some g) category))))
      in if as_dict then As_dict out_dict else As_list out_list)"

definition extract_active_lower_bound ::
  "bool \<Rightarrow> string option \<Rightarrow> result_component list \<Rightarrow> extraction" where
  "extract_active_lower_bound as_dict grp category =
     (let (out_list, out_dict) =
        (case grp of
           None \<Rightarrow>
             (let out_list = map (\<lambda>obj. py_opt (optimal_value obj)) category
              in (out_list,
                  foldl (\<lambda>d (count, obj). d(rc_name obj \<mapsto> out_list ! count))
                    Map.empty (enumerate 0 category)))
         | Some g \<Rightarrow>
             (map (\<lambda>obj. py_opt (optimal_value obj))
                (filter (\<lambda>obj. rc_group obj = Some g) category),
              foldl (\<lambda>d (count, obj). d(rc_name obj \<mapsto> py_opt (optimal_value obj)))
                Map.empty (enumerate 0 (filter (\<lambda>obj. rc_group obj = Some g) category))))
      in if as_dict then As_dict out_dict else As_list out_list)"

definition optimal_decision_variables :: "bool \<Rightarrow> string option \<Rightarrow> optimization_result \<Rightarrow> extraction" where
  "optimal_decision_variables as_dict grp r = extract_optimal_values as_dict grp (r_decision_variables r)"

definition optimal_constraint_values :: "bool \<Rightarrow> string option \<Rightarrow> optimization_result \<Rightarrow> extraction" where
  "optimal_constraint_values as_dict grp r = extract_optimal_values as_dict grp (r_constraints r)"






definition active_lower_bounds_constraints :: "bool \<Rightarrow> string option \<Rightarrow> optimization_result \<Rightarrow> extraction" where
  "active_lower_bounds_constraints as_dict grp r =
     extract_active_lower_bound as_dict grp (r_constraints r)"

definition active_upper_bounds_constraints :: "bool \<Rightarrow> string option \<Rightarrow> optimization_result \<Rightarrow> extraction" where
  "active_upper_bounds_constraints as_dict grp r =
     extract_active_upper_bound as_dict grp (r_constraints r)"

definition active_lower_bounds_decision_variables :: "bool \<Rightarrow> string option \<Rightarrow> optimization_result \<Rightarrow> extraction" where
  "active_lower_bounds_decision_variables as_dict grp r =
     extract_active_lower_bound as_dict grp (r_decision_variables r)"

definition active_upper_bounds_decision_variables :: "bool \<Rightarrow> string option \<Rightarrow> optimization_result \<Rightarrow> extraction" where
  "active_upper_bounds_decision_variables as_dict grp r =
     extract_active_upper_bound as_dict grp (r_decision_variables r)"

section \<open>functions.py\<close>

text \<open>
  \<open>replace_inf\<close> hands back the replacement for an infinite value and the value itself
  otherwise (NaN included, which equals neither infinity). Negating the replacement is
  exact.
\<close>

definition replace_inf :: "pyfloat \<Rightarrow> real \<Rightarrow> pyfloat" where
  "replace_inf val replace_value =
     (if val = PosInf then Fin replace_value
      else if val = NegInf then Fin (- 1 * replace_value)
      else val)"

text \<open>
  The default of the second parameter, \<open>10 ** 10\<close>. It is an integer that float
  arithmetic takes over exactly.
\<close>

definition replace_value_default :: real where
  "replace_value_default = 10 ^ 10"

section \<open>problem.py\<close>

record optimization_problem =
  decision_variables :: "decision_variable list"
  objectives :: "optimization_component list"
  constraints :: "optimization_component list"
  result :: "optimization_result option"
  verbose :: bool
  solved :: bool
  solver_name :: string

text \<open>
  The solver options are handed to the engine as they are and play no part in what
  follows; they are left out of the record.
\<close>

definition OptimizationProblem :: "string \<Rightarrow> bool \<Rightarrow> optimization_problem" where
  "OptimizationProblem sname verb =
     \<lparr>decision_variables = [], objectives = [], constraints = [], result = None,
      verbose = verb, solved = False, solver_name = sname\<rparr>"

definition check_bounds :: "pyfloat \<Rightarrow> pyfloat \<Rightarrow> error + unit" where
  "check_bounds ub lb = (if pf_less ub lb then Inl ValueError else Inr ())"

definition lower_bounds_constraints :: "optimization_problem \<Rightarrow> pyfloat list" where
  "lower_bounds_constraints p = map lower_bound (constraints p)"

definition upper_bounds_constraints :: "optimization_problem \<Rightarrow> pyfloat list" where
  "upper_bounds_constraints p = map upper_bound (constraints p)"

definition names_constraints :: "optimization_problem \<Rightarrow> string option list" where
  "names_constraints p = map name (constraints p)"

definition lower_bounds_decision_variables :: "optimization_problem \<Rightarrow> pyfloat list" where
  "lower_bounds_decision_variables p = map lower_bound (decision_variables p)"

definition upper_bounds_decision_variables :: "optimization_problem \<Rightarrow> pyfloat list" where
  "upper_bounds_decision_variables p = map upper_bound (decision_variables p)"

text \<open>Python's \<open>str\<close> of a natural number, for the positional default names.\<close>

function str_of_nat :: "nat \<Rightarrow> string" where
  "str_of_nat n =
     (if n < 10 then [char_of (48 + n)]
      else str_of_nat (n div 10) @ [char_of (48 + n mod 10)])"
  by pat_completeness auto
termination
  by (relation "measure id") auto

definition add_constraint ::
  "SX \<Rightarrow> pyfloat \<Rightarrow> pyfloat \<Rightarrow> string option \<Rightarrow> string option \<Rightarrow> optimization_problem
     \<Rightarrow> error + optimization_problem" where
  "add_constraint equation lb ub nm grp p =
     (case check_bounds ub lb of
        Inl e \<Rightarrow> Inl e
      | Inr _ \<Rightarrow>
          (let nm' = (case nm of
                        None \<Rightarrow> ''Constraint_'' @ str_of_nat (length (constraints p) + 1)
                      | Some n \<Rightarrow> n)
           in Inr (p\<lparr>constraints := constraints p @ [Constraint equation lb ub (Some nm') grp]\<rparr>)))"

definition add_objective ::
  "SX \<Rightarrow> string option \<Rightarrow> string option \<Rightarrow> optimization_problem \<Rightarrow> optimization_problem" where
  "add_objective objective nm grp p =
     (let nm' = (case nm of
                   None \<Rightarrow> ''Objective_'' @ str_of_nat (length (objectives p) + 1)
                 | Some n \<Rightarrow> n)
      in p\<lparr>objectives := objectives p @ [Objective objective (Some nm') grp]\<rparr>)"

text \<open>
  \<open>SX.sym(name)\<close> creates a fresh symbol; as the new variable takes the next position
  in the list of decision variables, its evaluator reads that position.
\<close>

definition sym :: "nat \<Rightarrow> SX" where
  "sym k = (\<lambda>xs. xs ! k)"

definition add_decision_variable ::
  "string \<Rightarrow> pyfloat \<Rightarrow> pyfloat \<Rightarrow> string option \<Rightarrow> optimization_problem
     \<Rightarrow> error + optimization_problem \<times> SX" where
  "add_decision_variable nm lb ub grp p =
     (case check_bounds ub lb of
        Inl e \<Rightarrow> Inl e
      | Inr _ \<Rightarrow>
          (let temp = sym (length (decision_variables p))
           in Inr (p\<lparr>decision_variables :=
                       decision_variables p @ [DecisionVariable temp lb ub (Some nm) grp False]\<rparr>,
                   temp)))"

section \<open>solver.py\<close>

text \<open>
  What lies outside the repository is a parameter of the model, the platform:
  \<^item> the engine instance built by \<open>nlpsol\<close>, a step function on an engine state of any
    type: one invocation receives the guess and the four bound vectors and either raises
    (as the library does for an argument it refuses, such as a guess of the wrong
    dimension) or returns the primal vector \<open>x\<close>, the objective value \<open>f\<close>, the
    multipliers \<open>lam_x\<close> and the success flag of its statistics;
  \<^item> the rule by which the expression library accepts the name of a function it is asked
    to build (\<open>cd.Function(name, ...)\<close> raises for a name it rejects);
  \<^item> the rounding of float arithmetic.
  Console output is not part of the model.
\<close>

record engine_call =
  x0 :: "pyfloat list"
  lbx :: "pyfloat list"
  ubx :: "pyfloat list"
  lbg :: "pyfloat list"
  ubg :: "pyfloat list"

record engine_result =
  res_x :: "real list"
  res_f :: real
  res_lam_x :: "real list"
  stats_success :: bool

record 's platform =
  nlp_step :: "'s \<Rightarrow> engine_call \<Rightarrow> error + engine_result \<times> 's"
  name_ok :: "string option \<Rightarrow> bool"
  round_f :: "real \<Rightarrow> pyfloat"

text \<open>What a run does to the outside, in order: writes of the solved flag, engine calls.\<close>

datatype event = Set_solved bool | Invoke engine_call engine_result

text \<open>
  The two effects, each together with its entry in the record of the run:
  \<open>self._problem.solved = b\<close>, and one invocation of the engine from its current state;
  an invocation that raises returns nothing and leaves no entry.
\<close>

definition set_solved ::
  "bool \<Rightarrow> optimization_problem \<times> event list \<Rightarrow> optimization_problem \<times> event list" where
  "set_solved b pl = ((fst pl)\<lparr>solved := b\<rparr>, snd pl @ [Set_solved b])"

definition call_engine ::
  "'s platform \<Rightarrow> engine_call \<Rightarrow> 's \<times> event list
     \<Rightarrow> error + engine_result \<times> 's \<times> event list" where
  "call_engine eng c sl =
     (case nlp_step eng (fst sl) c of
        Inl e \<Rightarrow> Inl e
      | Inr (r, est) \<Rightarrow> Inr (r, est, snd sl @ [Invoke c r]))"

record solver =
  s_name :: string
  s_problem :: "optimization_problem option"
  solver_result :: "engine_result option"

definition Solver :: "string \<Rightarrow> optimization_problem option \<Rightarrow> error + solver" where
  "Solver nm prob =
     (if nm \<notin> set [''ipopt''] then Inl NotImplementedError
      else (case prob of
              None \<Rightarrow> Inl NotImplementedError
            | Some p \<Rightarrow> Inr \<lparr>s_name = nm, s_problem = Some p, solver_result = None\<rparr>))"

text \<open>Reading entry \<open>i\<close> of an engine vector; out of range raises.\<close>

definition dm_get :: "real list \<Rightarrow> nat \<Rightarrow> error + real" where
  "dm_get v i = (if i < length v then Inr (v ! i) else Inl IndexError)"

fun map_err :: "('a \<Rightarrow> error + 'b) \<Rightarrow> 'a list \<Rightarrow> error + 'b list" where
  "map_err h [] = Inr []"
| "map_err h (a # as) =
     (case h a of
        Inl e \<Rightarrow> Inl e
      | Inr b \<Rightarrow> (case map_err h as of Inl e \<Rightarrow> Inl e | Inr bs \<Rightarrow> Inr (b # bs)))"

text \<open>\<open>[v[_] for _ in range(n)]\<close>\<close>

definition read_entries :: "real list \<Rightarrow> nat \<Rightarrow> error + real list" where
  "read_entries v n = map_err (dm_get v) [0..<n]"

text \<open>
  \<open>activation_epsilon = 10 ** -5\<close> is the float that the power evaluates to, the
  rounded value of \<open>10^-5\<close>. The test \<open>abs(bound - value) < activation_epsilon\<close> is
  made on floats: the difference is a rounded float difference.
\<close>

definition activation_epsilon :: "(real \<Rightarrow> pyfloat) \<Rightarrow> pyfloat" where
  "activation_epsilon rd = rd (1 / 10 ^ 5)"

definition bound_active :: "(real \<Rightarrow> pyfloat) \<Rightarrow> pyfloat \<Rightarrow> real \<Rightarrow> bool" where
  "bound_active rd b v = pf_less (pf_abs (pf_sub rd b (Fin v))) (activation_epsilon rd)"

text \<open>
  \<open>self._solver_result['x'][i]\<close>: the stored result is the empty dict (\<open>None\<close> here)
  until a run has selected a trial.
\<close>

definition solver_result_x :: "engine_result option \<Rightarrow> nat \<Rightarrow> error + real" where
  "solver_result_x sr i = (case sr of None \<Rightarrow> Inl KeyError | Some r \<Rightarrow> dm_get (res_x r) i)"

text \<open>
  What \<open>_save_optimal_values\<close> does for one constraint, one decision variable and
  one objective. For a constraint and for an objective the library first builds a function
  under the component's name, which raises for a name it rejects, and then evaluates it at
  the stored primal entries.
\<close>

definition constraint_result ::
  "'s platform \<Rightarrow> optimization_problem \<Rightarrow> engine_result option \<Rightarrow> optimization_component
     \<Rightarrow> error + result_component" where
  "constraint_result eng p sr c =
     (if \<not> name_ok eng (name c) then Inl RuntimeError
      else
        (case map_err (solver_result_x sr) [0..<length (decision_variables p)] of
           Inl e \<Rightarrow> Inl e
         | Inr vals \<Rightarrow>
             (let temp_result = variable c vals
              in Inr ((to_result_component c)
                   \<lparr>optimal_value := Some temp_result,
                    upper_bound_active :=
                      bound_active (round_f eng) (upper_bound c) temp_result,
                    lower_bound_active :=
                      bound_active (round_f eng) (lower_bound c) temp_result\<rparr>))))"

definition dec_var_result ::
  "engine_result option \<Rightarrow> nat \<times> decision_variable \<Rightarrow> error + result_component" where
  "dec_var_result sr cv =
     (case solver_result_x sr (fst cv) of
        Inl e \<Rightarrow> Inl e
      | Inr v \<Rightarrow> Inr ((to_result_component (snd cv))\<lparr>optimal_value := Some v\<rparr>))"

definition objective_result ::
  "'s platform \<Rightarrow> optimization_problem \<Rightarrow> engine_result option \<Rightarrow> optimization_component
     \<Rightarrow> error + result_component" where
  "objective_result eng p sr ob =
     (if \<not> name_ok eng (name ob) then Inl RuntimeError
      else
        (case map_err (solver_result_x sr) [0..<length (decision_variables p)] of
           Inl e \<Rightarrow> Inl e
         | Inr vals \<Rightarrow>
             Inr ((to_result_component ob)\<lparr>optimal_value := Some (variable ob vals)\<rparr>)))"

definition save_optimal_values :: "'s platform \<Rightarrow> solver \<Rightarrow> error + solver" where
  "save_optimal_values eng s =
     (case s_problem s of
        None \<Rightarrow> Inl AttributeError
      | Some p \<Rightarrow>
          if solved p then
            (case map_err (constraint_result eng p (solver_result s)) (constraints p) of
               Inl e \<Rightarrow> Inl e
             | Inr cs \<Rightarrow>
            (case map_err (dec_var_result (solver_result s))
                    (enumerate 0 (decision_variables p)) of
               Inl e \<Rightarrow> Inl e
             | Inr ds \<Rightarrow>
            (case map_err (objective_result eng p (solver_result s)) (objectives p) of
               Inl e \<Rightarrow> Inl e
             | Inr os \<Rightarrow>
                 Inr (s\<lparr>s_problem := Some (p\<lparr>result :=
                         Some \<lparr>r_constraints = cs, r_objectives = os,
                               r_decision_variables = ds\<rparr>\<rparr>)\<rparr>))))
          else Inr s)"

text \<open>
  \<open>np.argmin\<close> on a list of floats: one scan that keeps the smallest value met so far and
  its index, and moves on only for a strictly smaller value; an empty list raises.
\<close>

fun argmin_scan :: "real list \<Rightarrow> nat \<Rightarrow> nat \<Rightarrow> real \<Rightarrow> nat" where
  "argmin_scan [] i best_i best_v = best_i"
| "argmin_scan (v # vs) i best_i best_v =
     (if v < best_v then argmin_scan vs (Suc i) i v
      else argmin_scan vs (Suc i) best_i best_v)"

definition argmin :: "real list \<Rightarrow> error + nat" where
  "argmin vs = (case vs of [] \<Rightarrow> Inl ValueError | v # rest \<Rightarrow> Inr (argmin_scan rest 1 0 v))"

text \<open>
  The local variables of the trial loop, the state of the engine instance and the record
  of the effects so far.
\<close>

record 's loop_state =
  initial_guess :: "pyfloat list"
  successful_trials :: "engine_result list"
  failed_trials :: "engine_result list"
  engine_state :: 's
  events :: "event list"

text \<open>One pass through the body of the trial loop.\<close>

definition trial_body ::
  "'s platform \<Rightarrow> optimization_problem \<Rightarrow> 's loop_state \<Rightarrow> error + 's loop_state" where
  "trial_body eng p st =
     (let call = \<lparr>x0 = initial_guess st,
                  lbx = lower_bounds_decision_variables p,
                  ubx = upper_bounds_decision_variables p,
                  lbg = lower_bounds_constraints p,
                  ubg = upper_bounds_constraints p\<rparr>
      in case call_engine eng call (engine_state st, events st) of
           Inl e \<Rightarrow> Inl e
         | Inr (res, est, evl) \<Rightarrow>
             if \<not> stats_success res then
               (case read_entries (res_lam_x res) (length (decision_variables p)) of
                  Inl e \<Rightarrow> Inl e
                | Inr next_guess \<Rightarrow>
                    Inr (st\<lparr>initial_guess := map Fin next_guess,
                            failed_trials := failed_trials st @ [res],
                            engine_state := est,
                            events := evl\<rparr>))
             else
               (case read_entries (res_x res) (length (decision_variables p)) of
                  Inl e \<Rightarrow> Inl e
                | Inr next_guess \<Rightarrow>
                    Inr (st\<lparr>initial_guess := map Fin next_guess,
                            successful_trials := successful_trials st @ [res],
                            engine_state := est,
                            events := evl\<rparr>)))"

text \<open>\<open>for trial in range(trials)\<close>: the body, \<open>k\<close> times in a row.\<close>

fun trial_loop ::
  "'s platform \<Rightarrow> optimization_problem \<Rightarrow> nat \<Rightarrow> 's loop_state \<Rightarrow> error + 's loop_state" where
  "trial_loop eng p 0 st = Inr st"
| "trial_loop eng p (Suc k) st =
     (case trial_body eng p st of
        Inl e \<Rightarrow> Inl e
      | Inr st' \<Rightarrow> trial_loop eng p k st')"

text \<open>
  The guess made up when none is given: one call of \<open>random()\<close> per decision variable,
  in order; \<open>rnd i\<close> is what the \<open>i\<close>-th call returns. The sum, the product and the
  difference are float operations, so a guess may be infinite or NaN. (Where both bounds
  are infinite Python takes the difference of the two replacements on integers, exactly;
  the model rounds the exact difference \<open>2 * 10^10\<close>, which is a float.)
\<close>

definition synthesize_guess ::
  "(real \<Rightarrow> pyfloat) \<Rightarrow> (nat \<Rightarrow> real) \<Rightarrow> optimization_problem \<Rightarrow> pyfloat list" where
  "synthesize_guess rd rnd p =
     map (\<lambda>(i, var).
            pf_add rd (replace_inf (lower_bound var) replace_value_default)
              (pf_mul rd (Fin (rnd i))
                 (pf_sub rd (replace_inf (upper_bound var) replace_value_default)
                            (replace_inf (lower_bound var) replace_value_default))))
       (enumerate 0 (decision_variables p))"

text \<open>
  The index returned by \<open>argmin\<close> lies within \<open>successful_trials\<close>, so the list access
  never raises. Next to the final solver the function returns the record of the run.
\<close>

definition ipopt_start ::
  "'s platform \<Rightarrow> 's \<Rightarrow> (nat \<Rightarrow> real) \<Rightarrow> int \<Rightarrow> pyfloat list option \<Rightarrow> solver
     \<Rightarrow> error + solver \<times> event list" where
  "ipopt_start eng e0 rnd trials guess s =
     (case s_problem s of
        None \<Rightarrow> Inl ValueError
      | Some p \<Rightarrow>
          (let g0 = (case guess of
                       None \<Rightarrow> synthesize_guess (round_f eng) rnd p
                     | Some g \<Rightarrow> g);
               (p1, log1) = set_solved False (p, [])
           in case trial_loop eng p1 (nat trials)
                     \<lparr>initial_guess = g0, successful_trials = [], failed_trials = [],
                      engine_state = e0, events = log1\<rparr> of
                Inl e \<Rightarrow> Inl e
              | Inr st \<Rightarrow>
                  (case (if successful_trials st = [] then
                           Inr (s, set_solved False (p1, events st))
                         else
                           (case argmin (map res_f (successful_trials st)) of
                              Inl e \<Rightarrow> Inl e
                            | Inr best_result_index \<Rightarrow>
                                Inr (s\<lparr>solver_result :=
                                          Some (successful_trials st ! best_result_index)\<rparr>,
                                     set_solved True (p1, events st)))) of
                     Inl e \<Rightarrow> Inl e
                   | Inr (s1, p2, log2) \<Rightarrow>
                       (case save_optimal_values eng (s1\<lparr>s_problem := Some p2\<rparr>) of
                          Inl e \<Rightarrow> Inl e
                        | Inr s2 \<Rightarrow> Inr (s2, log2)))))"

definition start ::
  "'s platform \<Rightarrow> 's \<Rightarrow> (nat \<Rightarrow> real) \<Rightarrow> int \<Rightarrow> pyfloat list option \<Rightarrow> solver
     \<Rightarrow> error + solver \<times> event list" where
  "start eng e0 rnd trials guess s =
     (if s_name s = ''ipopt'' then ipopt_start eng e0 rnd trials guess s else Inr (s, []))"

section \<open>nlp.py\<close>

definition solve ::
  "'s platform \<Rightarrow> 's \<Rightarrow> (nat \<Rightarrow> real) \<Rightarrow> string option \<Rightarrow> pyfloat list option \<Rightarrow> int
     \<Rightarrow> optimization_problem \<Rightarrow> error + optimization_problem \<times> optimization_result option" where
  "solve eng e0 rnd sname guess trials p =
     (let p0 = (case sname of None \<Rightarrow> p | Some n \<Rightarrow> p\<lparr>solver_name := n\<rparr>)
      in case Solver (solver_name p0) (Some p0) of
           Inl e \<Rightarrow> Inl e
         | Inr slv \<Rightarrow>
             (case start eng e0 rnd trials guess slv of
                Inl e \<Rightarrow> Inl e
              | Inr (slv', evs) \<Rightarrow>
                  (case s_problem slv' of
                     None \<Rightarrow> Inl AttributeError
                   | Some p' \<Rightarrow> Inr (p', result p'))))"

section \<open>Notions used to state the properties\<close>

text \<open>The vector of a trial that the next guess is read from.\<close>

definition chosen_vector :: "engine_result \<Rightarrow> real list" where
  "chosen_vector r = (if stats_success r then res_x r else res_lam_x r)"

text \<open>The four bound vectors of a call are the declared bounds of the problem.\<close>

definition bounds_passed :: "optimization_problem \<Rightarrow> engine_call \<Rightarrow> bool" where
  "bounds_passed p c \<longleftrightarrow>
     lbx c = map lower_bound (decision_variables p) \<and>
     ubx c = map upper_bound (decision_variables p) \<and>
     lbg c = map lower_bound (constraints p) \<and>
     ubg c = map upper_bound (constraints p)"

text \<open>The call that carries a guess and the declared bounds.\<close>

definition declared_call :: "optimization_problem \<Rightarrow> pyfloat list \<Rightarrow> engine_call" where
  "declared_call p g =
     \<lparr>x0 = g, lbx = map lower_bound (decision_variables p),
      ubx = map upper_bound (decision_variables p),
      lbg = map lower_bound (constraints p), ubg = map upper_bound (constraints p)\<rparr>"

text \<open>
  The exchange with the engine over \<open>k\<close> trials that start from the guess \<open>g\<close> and the
  engine state \<open>est\<close>: each call carries the current guess and the declared bounds, the
  engine answers from its current state, and the next guess holds the entries of the
  answer's vector for the decision variables. The exchange ends where the engine raises.
\<close>

fun trial_trace ::
  "'s platform \<Rightarrow> optimization_problem \<Rightarrow> nat \<Rightarrow> pyfloat list \<Rightarrow> 's
     \<Rightarrow> (engine_call \<times> engine_result) list" where
  "trial_trace eng p 0 g est = []"
| "trial_trace eng p (Suc k) g est =
     (case nlp_step eng est (declared_call p g) of
        Inl e \<Rightarrow> []
      | Inr (r, est') \<Rightarrow>
          (declared_call p g, r)
          # trial_trace eng p k
              (map Fin (take (length (decision_variables p)) (chosen_vector r))) est')"

text \<open>The result components written for a selected trial, in closed form.\<close>

definition constraint_outcome ::
  "'s platform \<Rightarrow> optimization_problem \<Rightarrow> engine_result \<Rightarrow> optimization_component
     \<Rightarrow> result_component" where
  "constraint_outcome eng p sel c =
     (let v = variable c (take (length (decision_variables p)) (res_x sel))
      in \<lparr>rc_name = name c, rc_group = group c, optimal_value = Some v,
          lower_bound_active = bound_active (round_f eng) (lower_bound c) v,
          upper_bound_active = bound_active (round_f eng) (upper_bound c) v\<rparr>)"

definition objective_outcome ::
  "optimization_problem \<Rightarrow> engine_result \<Rightarrow> optimization_component \<Rightarrow> result_component" where
  "objective_outcome p sel c =
     \<lparr>rc_name = name c, rc_group = group c,
      optimal_value = Some (variable c (take (length (decision_variables p)) (res_x sel))),
      lower_bound_active = False, upper_bound_active = False\<rparr>"

definition dec_var_outcome :: "engine_result \<Rightarrow> nat \<times> decision_variable \<Rightarrow> result_component" where
  "dec_var_outcome sel cv =
     \<lparr>rc_name = name (snd cv), rc_group = group (snd cv),
      optimal_value = Some (res_x sel ! fst cv),
      lower_bound_active = False, upper_bound_active = False\<rparr>"

definition outcome ::
  "'s platform \<Rightarrow> optimization_problem \<Rightarrow> engine_result \<Rightarrow> optimization_result" where
  "outcome eng p sel =
     \<lparr>r_constraints = map (constraint_outcome eng p sel) (constraints p),
      r_objectives = map (objective_outcome p sel) (objectives p),
      r_decision_variables = map (dec_var_outcome sel) (enumerate 0 (decision_variables p))\<rparr>"

definition first_guess ::
  "'s platform \<Rightarrow> (nat \<Rightarrow> real) \<Rightarrow> pyfloat list option \<Rightarrow> optimization_problem
     \<Rightarrow> pyfloat list" where
  "first_guess eng rnd guess p =
     (case guess of None \<Rightarrow> synthesize_guess (round_f eng) rnd p | Some g \<Rightarrow> g)"

text \<open>The solver a run ends with when its successful trials are \<open>succ\<close>.\<close>

definition final_solver ::
  "'s platform \<Rightarrow> solver \<Rightarrow> optimization_problem \<Rightarrow> engine_result list \<Rightarrow> solver" where
  "final_solver eng s p succ =
     (if succ = [] then s\<lparr>s_problem := Some (p\<lparr>solved := False\<rparr>)\<rparr>
      else (case argmin (map res_f succ) of
              Inl e \<Rightarrow> s
            | Inr i \<Rightarrow>
                s\<lparr>solver_result := Some (succ ! i),
                  s_problem := Some (p\<lparr>solved := True,
                                      result := Some (outcome eng p (succ ! i))\<rparr>)\<rparr>))"

text \<open>The results of the successful engine calls among the effects of a run, in order.\<close>

definition successes :: "event list \<Rightarrow> engine_result list" where
  "successes evs = concat (map (\<lambda>e. case e of Invoke c r \<Rightarrow> (if stats_success r then [r] else []) | Set_solved b \<Rightarrow> []) evs)"

text \<open>
  An engine whose vectors hold one entry per decision variable, as the vectors of a real
  engine do: \<open>x\<close> and \<open>lam_x\<close> have the dimension of the problem.
\<close>

definition engine_sized :: "'s platform \<Rightarrow> nat \<Rightarrow> bool" where
  "engine_sized eng n \<longleftrightarrow>
     (\<forall>st c r est. nlp_step eng st c = Inr (r, est) \<longrightarrow> length (chosen_vector r) = n)"

text \<open>An engine that raises on no call.\<close>

definition engine_answers :: "'s platform \<Rightarrow> bool" where
  "engine_answers eng \<longleftrightarrow> (\<forall>st c. \<exists>r est. nlp_step eng st c = Inr (r, est))"

text \<open>The library accepts the names of all constraints and objectives of the problem.\<close>

definition names_accepted :: "'s platform \<Rightarrow> optimization_problem \<Rightarrow> bool" where
  "names_accepted eng p \<longleftrightarrow>
     (\<forall>c\<in>set (constraints p). name_ok eng (name c)) \<and>
     (\<forall>ob\<in>set (objectives p). name_ok eng (name ob))"


section \<open>Worked examples\<close>

text \<open>
  The name rule of the example platform: a function name is accepted when it is a letter
  followed by letters, digits and underscores, no two underscores in a row, and is none of
  three reserved words. This is the rule the program's expression library applies.
\<close>

definition letter :: "char \<Rightarrow> bool" where
  "letter c \<longleftrightarrow> (65 \<le> (of_char c :: nat) \<and> (of_char c :: nat) \<le> 90)
               \<or> (97 \<le> (of_char c :: nat) \<and> (of_char c :: nat) \<le> 122)"

definition digit :: "char \<Rightarrow> bool" where
  "digit c \<longleftrightarrow> 48 \<le> (of_char c :: nat) \<and> (of_char c :: nat) \<le> 57"

fun name_tail :: "string \<Rightarrow> bool" where
  "name_tail [] = True"
| "name_tail (c # cs) =
     (if c = CHR ''_'' then (case cs of [] \<Rightarrow> True | d # ds \<Rightarrow> d \<noteq> CHR ''_'') \<and> name_tail cs
      else (letter c \<or> digit c) \<and> name_tail cs)"

definition identifier_name :: "string option \<Rightarrow> bool" where
  "identifier_name nm =
     (case nm of
        None \<Rightarrow> False
      | Some n \<Rightarrow>
          (case n of
             [] \<Rightarrow> False
           | c # cs \<Rightarrow> n \<notin> set [''null'', ''jac'', ''hess''] \<and> letter c \<and> name_tail cs))"

text \<open>
  The rounding of the example platform: exact below \<open>2^1024\<close> in magnitude, an
  infinity from there on, as binary64 arithmetic overflows. The float operations of the
  examples below have results that binary64 arithmetic represents exactly or turns into an
  infinity, so their outcomes are those of binary64.
\<close>

definition round_in_range :: "real \<Rightarrow> pyfloat" where
  "round_in_range x =
     (if 2 ^ 1024 \<le> \<bar>x\<bar> then (if x < 0 then NegInf else PosInf) else Fin x)"

text \<open>
  One decision variable \<open>x\<close> in \<open>[3, 10]\<close>, the constraint \<open>3 \<le> x\<close> and the
  objective \<open>x\<close>, together with stub engines that replay a table of trial results.
\<close>

definition problem_ex :: optimization_problem where
  "problem_ex =
     \<lparr>decision_variables = [DecisionVariable (sym 0) (Fin 3) (Fin 10) (Some ''x'') None False],
      objectives = [Objective (sym 0) (Some ''Objective_1'') None],
      constraints = [Constraint (sym 0) (Fin 3) PosInf (Some ''Constraint_1'') None],
      result = None, verbose = False, solved = False, solver_name = ''ipopt''\<rparr>"

definition solver_ex :: solver where
  "solver_ex = \<lparr>s_name = ''ipopt'', s_problem = Some problem_ex, solver_result = None\<rparr>"

definition rnd_half :: "nat \<Rightarrow> real" where
  "rnd_half i = 1 / 2"

definition trial_ok :: "real \<Rightarrow> engine_result" where
  "trial_ok v = \<lparr>res_x = [v], res_f = v, res_lam_x = [0], stats_success = True\<rparr>"

definition trial_failed :: "real \<Rightarrow> engine_result" where
  "trial_failed m = \<lparr>res_x = [0], res_f = 0, res_lam_x = [m], stats_success = False\<rparr>"

text \<open>
  The stub platform answers the \<open>k\<close>-th engine call with the \<open>k\<close>-th row of its
  table (the last row from then on).
\<close>

definition stub_engine :: "engine_result list \<Rightarrow> nat platform" where
  "stub_engine table =
     \<lparr>nlp_step = (\<lambda>k c. Inr (table ! min k (length table - 1), Suc k)),
      name_ok = identifier_name,
      round_f = round_in_range\<rparr>"

text \<open>
  The same platform with an engine that, like the library, refuses a guess whose dimension
  is not that of the bound vectors.
\<close>

definition strict_engine :: "engine_result list \<Rightarrow> nat platform" where
  "strict_engine table =
     \<lparr>nlp_step = (\<lambda>k c. if length (x0 c) = length (lbx c)
                             then Inr (table ! min k (length table - 1), Suc k)
                             else Inl RuntimeError),
      name_ok = identifier_name,
      round_f = round_in_range\<rparr>"

text \<open>Problems with the components of the example, whatever their solved flag and result.\<close>

definition like_ex :: "optimization_problem \<Rightarrow> bool" where
  "like_ex p \<longleftrightarrow>
     decision_variables p = decision_variables problem_ex \<and>
     constraints p = constraints problem_ex \<and>
     objectives p = objectives problem_ex"

definition call_ex :: "real \<Rightarrow> engine_call" where
  "call_ex g = \<lparr>x0 = [Fin g], lbx = [Fin 3], ubx = [Fin 10], lbg = [Fin 3], ubg = [PosInf]\<rparr>"

text \<open>The result written for the example when the selected primal vector is \<open>[v]\<close>.\<close>

definition result_ex :: "real \<Rightarrow> optimization_result" where
  "result_ex v =
     \<lparr>r_constraints = [\<lparr>rc_name = Some ''Constraint_1'', rc_group = None, optimal_value = Some v,
                         lower_bound_active = (\<bar>3 - v\<bar> < 1 / 100000), upper_bound_active = False\<rparr>],
      r_objectives = [\<lparr>rc_name = Some ''Objective_1'', rc_group = None, optimal_value = Some v,
                        lower_bound_active = False, upper_bound_active = False\<rparr>],
      r_decision_variables = [\<lparr>rc_name = Some ''x'', rc_group = None, optimal_value = Some v,
                        lower_bound_active = False, upper_bound_active = False\<rparr>]\<rparr>"

text \<open>The example after a first solve that selected the optimum 2.\<close>

definition solved_ex :: optimization_problem where
  "solved_ex = problem_ex\<lparr>result := Some (result_ex 2), solved := True\<rparr>"





section \<open>Auxiliary facts\<close>

lemma map_err_Inr_iff:
  "map_err h xs = Inr ys \<longleftrightarrow> length ys = length xs \<and> (\<forall>i<length xs. h (xs ! i) = Inr (ys ! i))"
proof (induction xs arbitrary: ys)
  case Nil
  then show ?case by auto
next
  case (Cons a as)
  show ?case
  proof (cases ys)
    case Nil
    then show ?thesis by (auto split: sum.splits)
  next
    case (Cons b bs)
    then show ?thesis using Cons.IH [of bs]
      by (auto split: sum.splits simp: nth_Cons less_Suc_eq_0_disj  split: nat.splits)
  qed
qed

lemma map_err_Inl:
  "map_err h xs = Inl e \<Longrightarrow> \<exists>i<length xs. h (xs ! i) = Inl e"
proof (induction xs)
  case Nil
  then show ?case by simp
next
  case (Cons a as)
  then show ?case
    by (fastforce split: sum.splits simp: nth_Cons split: nat.splits)
qed

lemma read_entries_eq:
  "read_entries v n = (if n \<le> length v then Inr (take n v) else Inl IndexError)"
proof (cases "n \<le> length v")
  case True
  have "map_err (dm_get v) [0..<n] = Inr (take n v)"
    unfolding map_err_Inr_iff using True by (simp add: dm_get_def)
  then show ?thesis using True by (simp add: read_entries_def)
next
  case False
  obtain r where r: "read_entries v n = r" by simp
  show ?thesis
  proof (cases r)
    case (Inl e)
    with r have "map_err (dm_get v) [0..<n] = Inl e" by (simp add: read_entries_def)
    from map_err_Inl [OF this] have "e = IndexError"
      by (auto simp: dm_get_def split: if_splits)
    with Inl r False show ?thesis by simp
  next
    case (Inr ys)
    with r have "map_err (dm_get v) [0..<n] = Inr ys" by (simp add: read_entries_def)
    then have "\<forall>i<n. dm_get v i = Inr (ys ! i)" unfolding map_err_Inr_iff by simp
    moreover have "length v < n" using False by simp
    ultimately have "dm_get v (length v) = Inr (ys ! length v)" by blast
    then show ?thesis by (simp add: dm_get_def)
  qed
qed

lemma argmin_scan_props:
  "argmin_scan vs i bi bv = r \<Longrightarrow>
   (r = bi \<and> (\<forall>j<length vs. bv \<le> vs ! j)) \<or>
   (\<exists>k<length vs. r = i + k \<and> vs ! k < bv \<and> (\<forall>j<length vs. vs ! k \<le> vs ! j) \<and> (\<forall>j<k. vs ! k < vs ! j))"
proof (induction vs arbitrary: i bi bv)
  case Nil
  then show ?case by simp
next
  case (Cons v vs)
  show ?case
  proof (cases "v < bv")
    case True
    with Cons.prems have "argmin_scan vs (Suc i) i v = r" by simp
    from Cons.IH [OF this] show ?thesis
    proof
      assume a: "r = i \<and> (\<forall>j<length vs. v \<le> vs ! j)"
      have "\<forall>j<length (v # vs). (v # vs) ! 0 \<le> (v # vs) ! j"
        using a by (auto simp: nth_Cons split: nat.splits)
      with a True show ?thesis by (intro disjI2 exI [of _ 0]) auto
    next
      assume "\<exists>k<length vs. r = Suc i + k \<and> vs ! k < v \<and> (\<forall>j<length vs. vs ! k \<le> vs ! j) \<and> (\<forall>j<k. vs ! k < vs ! j)"
      then obtain k where k: "k < length vs" "r = Suc i + k" "vs ! k < v"
        "\<forall>j<length vs. vs ! k \<le> vs ! j" "\<forall>j<k. vs ! k < vs ! j" by blast
      have "\<forall>j<length (v # vs). (v # vs) ! Suc k \<le> (v # vs) ! j"
        using k by (auto simp: nth_Cons split: nat.splits)
      moreover have "\<forall>j<Suc k. (v # vs) ! Suc k < (v # vs) ! j"
        using k by (auto simp: nth_Cons split: nat.splits)
      ultimately show ?thesis using k True
        by (intro disjI2 exI [of _ "Suc k"]) auto
    qed
  next
    case False
    with Cons.prems have "argmin_scan vs (Suc i) bi bv = r" by simp
    from Cons.IH [OF this] show ?thesis
    proof
      assume a: "r = bi \<and> (\<forall>j<length vs. bv \<le> vs ! j)"
      then have "\<forall>j<length (v # vs). bv \<le> (v # vs) ! j"
        using False by (auto simp: nth_Cons split: nat.splits)
      with a show ?thesis by blast
    next
      assume "\<exists>k<length vs. r = Suc i + k \<and> vs ! k < bv \<and> (\<forall>j<length vs. vs ! k \<le> vs ! j) \<and> (\<forall>j<k. vs ! k < vs ! j)"
      then obtain k where k: "k < length vs" "r = Suc i + k" "vs ! k < bv"
        "\<forall>j<length vs. vs ! k \<le> vs ! j" "\<forall>j<k. vs ! k < vs ! j" by blast
      have "\<forall>j<length (v # vs). (v # vs) ! Suc k \<le> (v # vs) ! j"
        using k False by (auto simp: nth_Cons split: nat.splits)
      moreover have "\<forall>j<Suc k. (v # vs) ! Suc k < (v # vs) ! j"
        using k False by (auto simp: nth_Cons split: nat.splits)
      ultimately show ?thesis using k
        by (intro disjI2 exI [of _ "Suc k"]) auto
    qed
  qed
qed

lemma argmin_first_minimum:
  assumes "vs \<noteq> []"
  shows "\<exists>i<length vs. argmin vs = Inr i \<and> (\<forall>j<length vs. vs ! i \<le> vs ! j) \<and> (\<forall>j<i. vs ! i < vs ! j)"
proof -
  from assms obtain v rest where vs: "vs = v # rest" by (cases vs) auto
  define r where "r = argmin_scan rest 1 0 v"
  have am: "argmin vs = Inr r" by (simp add: argmin_def vs r_def)
  from argmin_scan_props [of rest 1 0 v r] r_def
  have "(r = 0 \<and> (\<forall>j<length rest. v \<le> rest ! j)) \<or>
   (\<exists>k<length rest. r = 1 + k \<and> rest ! k < v \<and> (\<forall>j<length rest. rest ! k \<le> rest ! j) \<and> (\<forall>j<k. rest ! k < rest ! j))"
    by simp
  then show ?thesis
  proof
    assume a: "r = 0 \<and> (\<forall>j<length rest. v \<le> rest ! j)"
    then have "\<forall>j<length vs. vs ! 0 \<le> vs ! j"
      by (auto simp: vs nth_Cons split: nat.splits)
    with a am show ?thesis by (intro exI [of _ 0]) (simp add: vs)
  next
    assume "\<exists>k<length rest. r = 1 + k \<and> rest ! k < v \<and> (\<forall>j<length rest. rest ! k \<le> rest ! j) \<and> (\<forall>j<k. rest ! k < rest ! j)"
    then obtain k where k: "k < length rest" "r = Suc k" "rest ! k < v"
      "\<forall>j<length rest. rest ! k \<le> rest ! j" "\<forall>j<k. rest ! k < rest ! j" by auto
    have "\<forall>j<length vs. vs ! Suc k \<le> vs ! j"
      using k by (auto simp: vs nth_Cons split: nat.splits)
    moreover have "\<forall>j<Suc k. vs ! Suc k < vs ! j"
      using k by (auto simp: vs nth_Cons split: nat.splits)
    ultimately show ?thesis using am k by (intro exI [of _ "Suc k"]) (simp add: vs)
  qed
qed

lemma map_err_total:
  "(\<And>a. a \<in> set xs \<Longrightarrow> h a = Inr (g a)) \<Longrightarrow> map_err h xs = Inr (map g xs)"
  by (induction xs) simp_all

lemma solver_result_x_entries:
  "map_err (solver_result_x (Some sel)) [0..<n] = read_entries (res_x sel) n"
  by (simp add: read_entries_def solver_result_x_def [abs_def])

lemma trial_body_Inr:
  assumes "trial_body eng p st = Inr st'"
  shows "\<exists>r est.
           nlp_step eng (engine_state st) (declared_call p (initial_guess st)) = Inr (r, est)
         \<and> length (decision_variables p) \<le> length (chosen_vector r)
         \<and> events st' = events st @ [Invoke (declared_call p (initial_guess st)) r]
         \<and> initial_guess st'
             = map Fin (take (length (decision_variables p)) (chosen_vector r))
         \<and> engine_state st' = est
         \<and> successful_trials st' = successful_trials st @ filter stats_success [r]"
proof -
  define c where "c = declared_call p (initial_guess st)"
  have c': "\<lparr>x0 = initial_guess st,
                  lbx = lower_bounds_decision_variables p,
                  ubx = upper_bounds_decision_variables p,
                  lbg = lower_bounds_constraints p,
                  ubg = upper_bounds_constraints p\<rparr> = c"
    by (simp add: c_def declared_call_def lower_bounds_decision_variables_def
        upper_bounds_decision_variables_def lower_bounds_constraints_def
        upper_bounds_constraints_def)
  from assms obtain r est where e: "nlp_step eng (engine_state st) c = Inr (r, est)"
    unfolding trial_body_def Let_def c' call_engine_def
    by (auto split: sum.splits)
  have all: "length (decision_variables p) \<le> length (chosen_vector r)
      \<and> events st' = events st @ [Invoke c r]
      \<and> initial_guess st' = map Fin (take (length (decision_variables p)) (chosen_vector r))
      \<and> engine_state st' = est
      \<and> successful_trials st' = successful_trials st @ filter stats_success [r]"
  proof (cases "stats_success r")
    case True
    with assms e show ?thesis
      unfolding trial_body_def Let_def c' call_engine_def
      by (auto simp: read_entries_eq chosen_vector_def split: if_splits)
  next
    case False
    with assms e show ?thesis
      unfolding trial_body_def Let_def c' call_engine_def
      by (auto simp: read_entries_eq chosen_vector_def split: if_splits)
  qed
  with e show ?thesis
    unfolding c_def by blast
qed

lemma trial_body_total:
  assumes "nlp_step eng (engine_state st) (declared_call p (initial_guess st)) = Inr (r, est)"
    and "length (decision_variables p) \<le> length (chosen_vector r)"
  shows "\<exists>st'. trial_body eng p st = Inr st'"
proof -
  define c where "c = declared_call p (initial_guess st)"
  have c': "\<lparr>x0 = initial_guess st,
                  lbx = lower_bounds_decision_variables p,
                  ubx = upper_bounds_decision_variables p,
                  lbg = lower_bounds_constraints p,
                  ubg = upper_bounds_constraints p\<rparr> = c"
    by (simp add: c_def declared_call_def lower_bounds_decision_variables_def
        upper_bounds_decision_variables_def lower_bounds_constraints_def
        upper_bounds_constraints_def)
  from assms(1) have e: "nlp_step eng (engine_state st) c = Inr (r, est)"
    by (simp add: c_def)
  with assms(2) show ?thesis
    unfolding trial_body_def Let_def c' call_engine_def
    by (cases "stats_success r") (simp_all add: read_entries_eq chosen_vector_def)
qed

lemma trial_loop_Inr:
  assumes "trial_loop eng p k st = Inr st'"
  shows "events st' = events st
           @ map (\<lambda>(c, r). Invoke c r)
               (trial_trace eng p k (initial_guess st) (engine_state st))
       \<and> successful_trials st' = successful_trials st
           @ filter stats_success
               (map snd (trial_trace eng p k (initial_guess st) (engine_state st)))
       \<and> (\<forall>cr\<in>set (trial_trace eng p k (initial_guess st) (engine_state st)).
             length (decision_variables p) \<le> length (chosen_vector (snd cr)))
       \<and> length (trial_trace eng p k (initial_guess st) (engine_state st)) = k"
  using assms
proof (induction k arbitrary: st)
  case 0
  then show ?case by simp
next
  case (Suc k)
  from Suc.prems obtain st1 where b: "trial_body eng p st = Inr st1"
    and l: "trial_loop eng p k st1 = Inr st'"
    by (auto split: sum.splits)
  from trial_body_Inr [OF b] obtain r est where tb:
    "nlp_step eng (engine_state st) (declared_call p (initial_guess st)) = Inr (r, est)"
    "length (decision_variables p) \<le> length (chosen_vector r)"
    "events st1 = events st @ [Invoke (declared_call p (initial_guess st)) r]"
    "initial_guess st1 = map Fin (take (length (decision_variables p)) (chosen_vector r))"
    "engine_state st1 = est"
    "successful_trials st1 = successful_trials st @ filter stats_success [r]"
    by blast
  from Suc.IH [OF l] tb show ?case by simp
qed

lemma trial_loop_total:
  assumes "engine_answers eng" and "engine_sized eng (length (decision_variables p))"
  shows "\<exists>st'. trial_loop eng p k st = Inr st'"
proof (induction k arbitrary: st)
  case 0
  show ?case by simp
next
  case (Suc k)
  from assms(1) obtain r est where
    e: "nlp_step eng (engine_state st) (declared_call p (initial_guess st)) = Inr (r, est)"
    unfolding engine_answers_def by blast
  with assms(2) have "length (decision_variables p) \<le> length (chosen_vector r)"
    unfolding engine_sized_def by fastforce
  from trial_body_total [OF e this] obtain st1 where "trial_body eng p st = Inr st1" by blast
  with Suc.IH [of st1] show ?case by simp
qed

lemma declared_call_solved [simp]: "declared_call (p\<lparr>solved := b\<rparr>) g = declared_call p g"
  by (simp add: declared_call_def)

lemma trial_trace_solved [simp]:
  "trial_trace eng (p\<lparr>solved := b\<rparr>) k g est = trial_trace eng p k g est"
  by (induction k arbitrary: g est) (auto split: sum.splits)

lemma trial_trace_first:
  "0 < length (trial_trace eng p k g est)
   \<Longrightarrow> fst (trial_trace eng p k g est ! 0) = declared_call p g"
  by (cases k) (auto split: sum.splits)

lemma trial_trace_answer:
  "i < length (trial_trace eng p k g est) \<Longrightarrow>
   \<exists>g' est' est''.
     fst (trial_trace eng p k g est ! i) = declared_call p g'
   \<and> nlp_step eng est' (declared_call p g') = Inr (snd (trial_trace eng p k g est ! i), est'')"
proof (induction k arbitrary: g est i)
  case 0
  then show ?case by simp
next
  case (Suc k)
  show ?case
  proof (cases "nlp_step eng est (declared_call p g)")
    case (Inl e)
    with Suc.prems show ?thesis by simp
  next
    case (Inr a)
    obtain r est1 where a: "a = (r, est1)" by (cases a)
    show ?thesis
    proof (cases i)
      case 0
      with Inr a show ?thesis by auto
    next
      case (Suc j)
      with Suc.prems Inr a have
        "j < length (trial_trace eng p k
               (map Fin (take (length (decision_variables p)) (chosen_vector r))) est1)"
        by simp
      from Suc.IH [OF this] Suc Inr a show ?thesis by simp
    qed
  qed
qed

lemma trial_trace_next:
  "Suc i < length (trial_trace eng p k g est) \<Longrightarrow>
   x0 (fst (trial_trace eng p k g est ! Suc i))
     = map Fin (take (length (decision_variables p))
         (chosen_vector (snd (trial_trace eng p k g est ! i))))"
proof (induction k arbitrary: g est i)
  case 0
  then show ?case by simp
next
  case (Suc k)
  show ?case
  proof (cases "nlp_step eng est (declared_call p g)")
    case (Inl e)
    with Suc.prems show ?thesis by simp
  next
    case (Inr a)
    obtain r est1 where a: "a = (r, est1)" by (cases a)
    let ?g = "map Fin (take (length (decision_variables p)) (chosen_vector r))"
    show ?thesis
    proof (cases i)
      case 0
      with Suc.prems Inr a have "0 < length (trial_trace eng p k ?g est1)" by simp
      from trial_trace_first [OF this] 0 Inr a show ?thesis
        by (simp add: declared_call_def)
    next
      case (Suc j)
      with Suc.prems Inr a have "Suc j < length (trial_trace eng p k ?g est1)" by simp
      from Suc.IH [OF this] Suc Inr a show ?thesis by simp
    qed
  qed
qed

lemma bounds_passed_declared [simp]: "bounds_passed p (declared_call p g)"
  by (simp add: bounds_passed_def declared_call_def)

lemma x0_declared [simp]: "x0 (declared_call p g) = g"
  by (simp add: declared_call_def)

lemma map_err_determined:
  assumes "map_err h xs = Inr ys" and "\<And>a b. a \<in> set xs \<Longrightarrow> h a = Inr b \<Longrightarrow> b = g a"
  shows "ys = map g xs"
  using assms
proof (induction xs arbitrary: ys)
  case Nil
  then show ?case by simp
next
  case (Cons a as)
  from Cons.prems(1) obtain b bs where b: "h a = Inr b" "map_err h as = Inr bs" "ys = b # bs"
    by (auto split: sum.splits)
  from Cons.prems(2) [of a b] b(1) have "b = g a" by simp
  moreover from Cons.IH [OF b(2)] Cons.prems(2) have "bs = map g as" by simp
  ultimately show ?case using b(3) by simp
qed

lemma stored_entries:
  "map_err (solver_result_x (Some sel)) [0..<n] = Inr vals \<Longrightarrow> vals = take n (res_x sel)"
  by (simp add: solver_result_x_entries read_entries_eq split: if_splits)

lemma constraint_result_Inr:
  "constraint_result eng p (Some sel) c = Inr rc \<Longrightarrow> rc = constraint_outcome eng p sel c"
  by (auto simp: constraint_result_def constraint_outcome_def Let_def to_result_component_def
      ResultComponent_def split: if_splits sum.splits dest!: stored_entries)

lemma objective_result_Inr:
  "objective_result eng p (Some sel) c = Inr rc \<Longrightarrow> rc = objective_outcome p sel c"
  by (auto simp: objective_result_def objective_outcome_def to_result_component_def
      ResultComponent_def split: if_splits sum.splits dest!: stored_entries)

lemma dec_var_result_Inr:
  "dec_var_result (Some sel) cv = Inr rc \<Longrightarrow> rc = dec_var_outcome sel cv"
  by (auto simp: dec_var_result_def dec_var_outcome_def solver_result_x_def dm_get_def
      to_result_component_def ResultComponent_def split: if_splits sum.splits)

lemma save_optimal_values_Inr:
  assumes "save_optimal_values eng s = Inr s2"
    and "s_problem s = Some p" and "solved p" and "solver_result s = Some sel"
  shows "s2 = s\<lparr>s_problem := Some (p\<lparr>result := Some (outcome eng p sel)\<rparr>)\<rparr>"
proof -
  from assms obtain cs ds os where
    cs: "map_err (constraint_result eng p (Some sel)) (constraints p) = Inr cs"
    and ds: "map_err (dec_var_result (Some sel)) (enumerate 0 (decision_variables p)) = Inr ds"
    and os: "map_err (objective_result eng p (Some sel)) (objectives p) = Inr os"
    and s2: "s2 = s\<lparr>s_problem := Some (p\<lparr>result :=
                         Some \<lparr>r_constraints = cs, r_objectives = os,
                               r_decision_variables = ds\<rparr>\<rparr>)\<rparr>"
    by (auto simp: save_optimal_values_def split: sum.splits)
  have "cs = map (constraint_outcome eng p sel) (constraints p)"
    by (rule map_err_determined [OF cs]) (rule constraint_result_Inr)
  moreover have "ds = map (dec_var_outcome sel) (enumerate 0 (decision_variables p))"
    by (rule map_err_determined [OF ds]) (rule dec_var_result_Inr)
  moreover have "os = map (objective_outcome p sel) (objectives p)"
    by (rule map_err_determined [OF os]) (rule objective_result_Inr)
  ultimately show ?thesis using s2 by (simp add: outcome_def)
qed

lemma save_optimal_values_solved:
  assumes "s_problem s = Some p" "solved p" "solver_result s = Some sel"
    and "length (decision_variables p) \<le> length (res_x sel)"
    and "names_accepted eng p"
  shows "save_optimal_values eng s
         = Inr (s\<lparr>s_problem := Some (p\<lparr>result := Some (outcome eng p sel)\<rparr>)\<rparr>)"
proof -
  let ?n = "length (decision_variables p)"
  have rd: "map_err (solver_result_x (Some sel)) [0..<?n] = Inr (take ?n (res_x sel))"
    using assms(4) by (simp add: solver_result_x_entries read_entries_eq)
  have cs: "map_err (constraint_result eng p (Some sel)) (constraints p)
            = Inr (map (constraint_outcome eng p sel) (constraints p))"
    using assms(5)
    by (intro map_err_total)
      (simp add: constraint_result_def rd constraint_outcome_def Let_def
        to_result_component_def ResultComponent_def names_accepted_def)
  have os: "map_err (objective_result eng p (Some sel)) (objectives p)
            = Inr (map (objective_outcome p sel) (objectives p))"
    using assms(5)
    by (intro map_err_total)
      (simp add: objective_result_def rd objective_outcome_def
        to_result_component_def ResultComponent_def names_accepted_def)
  have ds: "map_err (dec_var_result (Some sel)) (enumerate 0 (decision_variables p))
            = Inr (map (dec_var_outcome sel) (enumerate 0 (decision_variables p)))"
  proof (rule map_err_total)
    fix a assume "a \<in> set (enumerate 0 (decision_variables p))"
    then have "fst a < length (res_x sel)"
      using assms(4) by (auto simp: in_set_enumerate_eq)
    then show "dec_var_result (Some sel) a = Inr (dec_var_outcome sel a)"
      by (simp add: dec_var_result_def solver_result_x_def dm_get_def dec_var_outcome_def
          to_result_component_def ResultComponent_def)
  qed
  show ?thesis
    using assms(1-3) by (simp add: save_optimal_values_def cs os ds outcome_def)
qed

lemma outcome_solved [simp]: "outcome eng (p\<lparr>solved := b\<rparr>) sel = outcome eng p sel"
  by (simp add: outcome_def constraint_outcome_def [abs_def] objective_outcome_def [abs_def])

lemma names_accepted_solved [simp]: "names_accepted eng (p\<lparr>solved := b\<rparr>) = names_accepted eng p"
  by (simp add: names_accepted_def)

lemma ipopt_start_run:
  assumes run: "ipopt_start eng e0 rnd trials guess s = Inr (s', evs)"
    and sp: "s_problem s = Some p"
  shows "\<exists>new. new = trial_trace eng p (nat trials) (first_guess eng rnd guess p) e0
       \<and> length new = nat trials
       \<and> evs = Set_solved False # map (\<lambda>(c, r). Invoke c r) new
                @ [Set_solved (filter stats_success (map snd new) \<noteq> [])]
       \<and> (filter stats_success (map snd new) = []
            \<longrightarrow> s' = s\<lparr>s_problem := Some (p\<lparr>solved := False\<rparr>)\<rparr>)
       \<and> (filter stats_success (map snd new) \<noteq> []
            \<longrightarrow> (\<exists>i. argmin (map res_f (filter stats_success (map snd new))) = Inr i
                   \<and> i < length (filter stats_success (map snd new))
                   \<and> s' = s\<lparr>solver_result := Some (filter stats_success (map snd new) ! i),
                            s_problem := Some (p\<lparr>solved := True,
                              result := Some (outcome eng p (filter stats_success (map snd new) ! i))\<rparr>)\<rparr>))"
proof -
  let ?init = "\<lparr>initial_guess = first_guess eng rnd guess p, successful_trials = [],
                failed_trials = [], engine_state = e0, events = [Set_solved False]\<rparr>"
  define new where "new = trial_trace eng p (nat trials) (first_guess eng rnd guess p) e0"
  from run sp obtain st where
    loop: "trial_loop eng (p\<lparr>solved := False\<rparr>) (nat trials) ?init = Inr st"
    unfolding ipopt_start_def Let_def first_guess_def set_solved_def
    by (auto split: sum.splits)
  from trial_loop_Inr [OF loop] have st:
    "events st = Set_solved False # map (\<lambda>(c, r). Invoke c r) new"
    "successful_trials st = filter stats_success (map snd new)"
    "\<forall>cr\<in>set new. length (decision_variables p) \<le> length (chosen_vector (snd cr))"
    "length new = nat trials"
    by (simp_all add: new_def)
  let ?succ = "filter stats_success (map snd new)"
  have split_run:
    "(?succ = []
        \<and> save_optimal_values eng (s\<lparr>s_problem := Some (p\<lparr>solved := False\<rparr>)\<rparr>) = Inr s'
        \<and> evs = events st @ [Set_solved False])
     \<or> (?succ \<noteq> []
        \<and> (\<exists>i. argmin (map res_f ?succ) = Inr i
              \<and> save_optimal_values eng
                   (s\<lparr>solver_result := Some (?succ ! i),
                      s_problem := Some (p\<lparr>solved := True\<rparr>)\<rparr>) = Inr s')
        \<and> evs = events st @ [Set_solved True])"
    using run sp loop st(2)
    unfolding ipopt_start_def Let_def first_guess_def set_solved_def
    by (auto split: sum.splits if_splits)
  show ?thesis
  proof (cases "?succ = []")
    case True
    with split_run st(1) have "s' = s\<lparr>s_problem := Some (p\<lparr>solved := False\<rparr>)\<rparr>"
      and "evs = Set_solved False # map (\<lambda>(c, r). Invoke c r) new @ [Set_solved False]"
      by (simp_all add: save_optimal_values_def)
    with True st(4) show ?thesis
      by (intro exI [of _ new]) (simp add: new_def)
  next
    case False
    then have ne: "map res_f ?succ \<noteq> []" by simp
    from argmin_first_minimum [OF ne] obtain i where i:
      "i < length ?succ" "argmin (map res_f ?succ) = Inr i" by auto
    from split_run False i(2) st(1) have
      sv: "save_optimal_values eng
                   (s\<lparr>solver_result := Some (?succ ! i),
                      s_problem := Some (p\<lparr>solved := True\<rparr>)\<rparr>) = Inr s'"
      and ev: "evs = Set_solved False # map (\<lambda>(c, r). Invoke c r) new @ [Set_solved True]"
      by simp_all
    from save_optimal_values_Inr [OF sv, of "p\<lparr>solved := True\<rparr>" "?succ ! i"]
    have "s' = s\<lparr>solver_result := Some (?succ ! i),
                 s_problem := Some (p\<lparr>solved := True,
                                     result := Some (outcome eng p (?succ ! i))\<rparr>)\<rparr>"
      by simp
    with False i ev st(4) show ?thesis
      by (intro exI [of _ new]) (simp add: new_def)
  qed
qed

lemma ipopt_start_total:
  assumes sp: "s_problem s = Some p"
    and sz: "engine_sized eng (length (decision_variables p))"
    and ea: "engine_answers eng"
    and nm: "names_accepted eng p"
  shows "\<exists>s' evs. ipopt_start eng e0 rnd trials guess s = Inr (s', evs)"
proof -
  let ?init = "\<lparr>initial_guess = first_guess eng rnd guess p, successful_trials = [],
                failed_trials = [], engine_state = e0, events = [Set_solved False]\<rparr>"
  from sz have "engine_sized eng (length (decision_variables (p\<lparr>solved := False\<rparr>)))" by simp
  from trial_loop_total [OF ea this] obtain st where
    loop: "trial_loop eng (p\<lparr>solved := False\<rparr>) (nat trials) ?init = Inr st" by blast
  from trial_loop_Inr [OF loop] have st:
    "successful_trials st = filter stats_success
       (map snd (trial_trace eng p (nat trials) (first_guess eng rnd guess p) e0))"
    "\<forall>cr\<in>set (trial_trace eng p (nat trials) (first_guess eng rnd guess p) e0).
        length (decision_variables p) \<le> length (chosen_vector (snd cr))"
    by simp_all
  show ?thesis
  proof (cases "successful_trials st = []")
    case True
    with sp loop show ?thesis
      unfolding ipopt_start_def Let_def first_guess_def set_solved_def
      by (simp add: save_optimal_values_def)
  next
    case False
    then have "map res_f (successful_trials st) \<noteq> []" by simp
    from argmin_first_minimum [OF this] obtain i where i:
      "i < length (successful_trials st)" "argmin (map res_f (successful_trials st)) = Inr i"
      by auto
    let ?sel = "successful_trials st ! i"
    have "?sel \<in> set (successful_trials st)" using i(1) by (rule nth_mem)
    with st have ok: "stats_success ?sel"
      and "length (decision_variables p) \<le> length (chosen_vector ?sel)" by auto
    then have len: "length (decision_variables p) \<le> length (res_x ?sel)"
      by (simp add: chosen_vector_def)
    let ?s1 = "s\<lparr>solver_result := Some ?sel, s_problem := Some (p\<lparr>solved := True\<rparr>)\<rparr>"
    have "\<exists>s2. save_optimal_values eng ?s1 = Inr s2"
      using len nm
      by (subst save_optimal_values_solved [where p = "p\<lparr>solved := True\<rparr>" and sel = ?sel])
        simp_all
    then obtain s2 where "save_optimal_values eng ?s1 = Inr s2" by blast
    with sp loop False i(2) show ?thesis
      unfolding ipopt_start_def Let_def first_guess_def set_solved_def by simp
  qed
qed

lemma start_ipopt:
  "s_name s = ''ipopt'' \<Longrightarrow> start eng e0 rnd trials guess s = ipopt_start eng e0 rnd trials guess s"
  by (simp add: start_def)

lemma start_explicit:
  assumes sn: "s_name s = ''ipopt''" and sp: "s_problem s = Some p"
    and sz: "engine_sized eng (length (decision_variables p))"
    and ea: "engine_answers eng"
    and nm: "names_accepted eng p"
    and tr: "tr = trial_trace eng p (nat trials) (first_guess eng rnd guess p) e0"
    and su: "succ = filter stats_success (map snd tr)"
  shows "start eng e0 rnd trials guess s
         = Inr (final_solver eng s p succ,
                Set_solved False # map (\<lambda>(c, r). Invoke c r) tr @ [Set_solved (succ \<noteq> [])])"
proof -
  from ipopt_start_total [OF sp sz ea nm] obtain s' evs where
    run: "ipopt_start eng e0 rnd trials guess s = Inr (s', evs)" by blast
  from ipopt_start_run [OF run sp] tr su have
    ev: "evs = Set_solved False # map (\<lambda>(c, r). Invoke c r) tr @ [Set_solved (succ \<noteq> [])]"
    and a: "succ = [] \<longrightarrow> s' = s\<lparr>s_problem := Some (p\<lparr>solved := False\<rparr>)\<rparr>"
    and b: "succ \<noteq> [] \<longrightarrow> (\<exists>i. argmin (map res_f succ) = Inr i
                   \<and> s' = s\<lparr>solver_result := Some (succ ! i),
                            s_problem := Some (p\<lparr>solved := True,
                              result := Some (outcome eng p (succ ! i))\<rparr>)\<rparr>)"
    by auto
  have "s' = final_solver eng s p succ"
  proof (cases "succ = []")
    case True
    with a show ?thesis by (simp add: final_solver_def)
  next
    case False
    with b obtain i where "argmin (map res_f succ) = Inr i"
      "s' = s\<lparr>solver_result := Some (succ ! i),
              s_problem := Some (p\<lparr>solved := True,
                                  result := Some (outcome eng p (succ ! i))\<rparr>)\<rparr>" by blast
    with False show ?thesis by (simp add: final_solver_def)
  qed
  with run ev sn show ?thesis by (simp add: start_ipopt)
qed

section \<open>Facts about the examples\<close>

lemma str_of_nat_1: "str_of_nat (Suc 0) = ''1''"
  by code_simp

lemma trial_ok_sel [simp]:
  "res_x (trial_ok v) = [v]" "res_f (trial_ok v) = v" "res_lam_x (trial_ok v) = [0]"
  "stats_success (trial_ok v)"
  by (simp_all add: trial_ok_def)

lemma trial_failed_sel [simp]:
  "res_x (trial_failed m) = [0]" "res_f (trial_failed m) = 0" "res_lam_x (trial_failed m) = [m]"
  "\<not> stats_success (trial_failed m)"
  by (simp_all add: trial_failed_def)

lemma stub_engine_sel [simp]:
  "nlp_step (stub_engine table) k c = Inr (table ! min k (length table - 1), Suc k)"
  "name_ok (stub_engine table) = identifier_name"
  "round_f (stub_engine table) = round_in_range"
  by (simp_all add: stub_engine_def)

lemma round_in_range_small: "\<bar>x\<bar> < 2 ^ 1024 \<Longrightarrow> round_in_range x = Fin x"
  by (simp add: round_in_range_def)

lemma problem_ex_built:
  "\<exists>p1 x. add_decision_variable ''x'' (Fin 3) (Fin 10) None (OptimizationProblem ''ipopt'' False) = Inr (p1, x)
     \<and> (\<exists>p2. add_constraint x (Fin 3) PosInf None None p1 = Inr p2
     \<and> add_objective x None None p2 = problem_ex)"
  by (simp add: add_decision_variable_def add_constraint_def add_objective_def check_bounds_def
      OptimizationProblem_def problem_ex_def Let_def str_of_nat_1 del: str_of_nat.simps)

lemma like_ex_simps [simp]:
  "like_ex problem_ex" "like_ex solved_ex" "like_ex p \<Longrightarrow> like_ex (p\<lparr>solved := b\<rparr>)"
  by (simp_all add: like_ex_def solved_ex_def)

lemma like_ex_size: "like_ex p \<Longrightarrow> length (decision_variables p) = 1"
  by (simp add: like_ex_def problem_ex_def)

lemma declared_call_ex: "like_ex p \<Longrightarrow> declared_call p [Fin g] = call_ex g"
  by (simp add: declared_call_def call_ex_def like_ex_def problem_ex_def
      DecisionVariable_def Constraint_def OptimizationComponent_def
      optimization_component.extend_def decision_variable.fields_def)

lemma names_ex: "identifier_name (Some ''Constraint_1'')" "identifier_name (Some ''Objective_1'')"
  by (simp_all add: identifier_name_def letter_def digit_def)

lemma names_accepted_ex: "like_ex p \<Longrightarrow> names_accepted (stub_engine table) p"
  by (simp add: names_accepted_def like_ex_def problem_ex_def names_ex
      Constraint_def Objective_def OptimizationComponent_def)

lemma engine_sized_stub:
  assumes "table \<noteq> []" "\<forall>r\<in>set table. length (chosen_vector r) = n"
  shows "engine_sized (stub_engine table) n"
proof -
  have "table ! min k (length table - 1) \<in> set table" for k
    using assms(1) by (intro nth_mem) (cases table, auto)
  with assms(2) show ?thesis
    by (auto simp: engine_sized_def)
qed

lemma engine_answers_stub: "engine_answers (stub_engine table)"
  by (simp add: engine_answers_def)

lemma first_guess_ex: "like_ex p \<Longrightarrow> first_guess (stub_engine table) rnd_half None p = [Fin (13 / 2)]"
  by (simp add: first_guess_def synthesize_guess_def like_ex_def problem_ex_def rnd_half_def
      replace_inf_def replace_value_default_def round_in_range_small
      DecisionVariable_def OptimizationComponent_def
      optimization_component.extend_def decision_variable.fields_def)

lemma bound_active_ex:
  "bound_active round_in_range (Fin 3) v \<longleftrightarrow> \<bar>3 - v\<bar> < 1 / 100000"
  "\<not> bound_active round_in_range PosInf v"
proof -
  have e: "round_in_range (1 / 100000) = Fin (1 / 100000)"
    by (simp add: round_in_range_small)
  show "bound_active round_in_range (Fin 3) v \<longleftrightarrow> \<bar>3 - v\<bar> < 1 / 100000"
  proof (cases "\<bar>3 - v\<bar> < 2 ^ 1024")
    case True
    then show ?thesis
      by (simp add: bound_active_def activation_epsilon_def e round_in_range_small)
  next
    case False
    then have "\<not> \<bar>3 - v\<bar> < 1 / 100000" by simp
    with False show ?thesis
      by (simp add: bound_active_def activation_epsilon_def e round_in_range_def)
  qed
  show "\<not> bound_active round_in_range PosInf v"
    by (simp add: bound_active_def activation_epsilon_def e)
qed

lemma outcome_ex:
  "like_ex p \<Longrightarrow> res_x sel = [v] \<Longrightarrow> outcome (stub_engine table) p sel = result_ex v"
  by (simp add: outcome_def like_ex_def problem_ex_def result_ex_def constraint_outcome_def
      objective_outcome_def dec_var_outcome_def sym_def bound_active_ex
      DecisionVariable_def Constraint_def Objective_def OptimizationComponent_def
      optimization_component.extend_def decision_variable.fields_def)

lemma run_5_2_3:
  "start (stub_engine [trial_ok 5, trial_ok 2, trial_ok 3]) 0 rnd_half 3 None solver_ex
   = Inr (\<lparr>s_name = ''ipopt'',
           s_problem = Some (problem_ex\<lparr>solved := True, result := Some (result_ex 2)\<rparr>),
           solver_result = Some (trial_ok 2)\<rparr>,
          [Set_solved False, Invoke (call_ex (13 / 2)) (trial_ok 5), Invoke (call_ex 5) (trial_ok 2),
           Invoke (call_ex 2) (trial_ok 3), Set_solved True])"
proof -
  let ?eng = "stub_engine [trial_ok 5, trial_ok 2, trial_ok 3]"
  have sn: "s_name solver_ex = ''ipopt''" and sp: "s_problem solver_ex = Some problem_ex"
    by (simp_all add: solver_ex_def)
  have sz: "engine_sized ?eng (length (decision_variables problem_ex))"
    by (rule engine_sized_stub) (simp_all add: chosen_vector_def like_ex_size)
  have nm: "names_accepted ?eng problem_ex" by (simp add: names_accepted_ex)
  have tr: "[(call_ex (13 / 2), trial_ok 5), (call_ex 5, trial_ok 2), (call_ex 2, trial_ok 3)]
            = trial_trace ?eng problem_ex (nat 3) (first_guess ?eng rnd_half None problem_ex) 0"
    by (simp add: first_guess_ex numeral_3_eq_3 declared_call_ex chosen_vector_def like_ex_size)
  have su: "[trial_ok 5, trial_ok 2, trial_ok 3]
            = filter stats_success (map snd
                [(call_ex (13 / 2), trial_ok 5), (call_ex 5, trial_ok 2), (call_ex 2, trial_ok 3)])"
    by simp
  have am: "argmin [5, 2, 3] = Inr 1"
    by (simp add: argmin_def)
  show ?thesis
    by (subst start_explicit [OF sn sp sz engine_answers_stub nm tr su])
      (simp add: final_solver_def am outcome_ex solver_ex_def)
qed











lemma run_fail_ok_ok:
  "start (stub_engine [trial_failed 7, trial_ok 4, trial_ok 3]) 0 rnd_half 3 None solver_ex
   = Inr (\<lparr>s_name = ''ipopt'',
           s_problem = Some (problem_ex\<lparr>solved := True, result := Some (result_ex 3)\<rparr>),
           solver_result = Some (trial_ok 3)\<rparr>,
          [Set_solved False, Invoke (call_ex (13 / 2)) (trial_failed 7), Invoke (call_ex 7) (trial_ok 4),
           Invoke (call_ex 4) (trial_ok 3), Set_solved True])"
proof -
  let ?eng = "stub_engine [trial_failed 7, trial_ok 4, trial_ok 3]"
  have sn: "s_name solver_ex = ''ipopt''" and sp: "s_problem solver_ex = Some problem_ex"
    by (simp_all add: solver_ex_def)
  have sz: "engine_sized ?eng (length (decision_variables problem_ex))"
    by (rule engine_sized_stub) (simp_all add: chosen_vector_def like_ex_size)
  have nm: "names_accepted ?eng problem_ex" by (simp add: names_accepted_ex)
  have tr: "[(call_ex (13 / 2), trial_failed 7), (call_ex 7, trial_ok 4), (call_ex 4, trial_ok 3)]
            = trial_trace ?eng problem_ex (nat 3) (first_guess ?eng rnd_half None problem_ex) 0"
    by (simp add: first_guess_ex numeral_3_eq_3 declared_call_ex chosen_vector_def like_ex_size)
  have su: "[trial_ok 4, trial_ok 3]
            = filter stats_success (map snd
                [(call_ex (13 / 2), trial_failed 7), (call_ex 7, trial_ok 4), (call_ex 4, trial_ok 3)])"
    by simp
  have am: "argmin [4, 3] = Inr 1"
    by (simp add: argmin_def)
  show ?thesis
    by (subst start_explicit [OF sn sp sz engine_answers_stub nm tr su])
      (simp add: final_solver_def am outcome_ex solver_ex_def)
qed

lemma first_solve_ex:
  "solve (stub_engine [trial_ok 5, trial_ok 2, trial_ok 3]) 0 rnd_half None None 3 problem_ex
   = Inr (solved_ex, Some (result_ex 2))"
  using run_5_2_3
  by (simp add: solve_def Solver_def solver_ex_def problem_ex_def solved_ex_def)

lemma solver_name_solved_ex: "solver_name solved_ex = ''ipopt''"
  by (simp add: solved_ex_def problem_ex_def)

lemma run_all_fail:
  "start (stub_engine [trial_failed 7]) 0 rnd_half 3 None
     \<lparr>s_name = ''ipopt'', s_problem = Some solved_ex, solver_result = None\<rparr>
   = Inr (\<lparr>s_name = ''ipopt'', s_problem = Some (solved_ex\<lparr>solved := False\<rparr>),
           solver_result = None\<rparr>,
          [Set_solved False, Invoke (call_ex (13 / 2)) (trial_failed 7),
           Invoke (call_ex 7) (trial_failed 7), Invoke (call_ex 7) (trial_failed 7),
           Set_solved False])"
proof -
  let ?eng = "stub_engine [trial_failed 7]"
  let ?s = "\<lparr>s_name = ''ipopt'', s_problem = Some solved_ex, solver_result = None\<rparr>"
  have sn: "s_name ?s = ''ipopt''" and sp: "s_problem ?s = Some solved_ex"
    by simp_all
  have sz: "engine_sized ?eng (length (decision_variables solved_ex))"
    by (rule engine_sized_stub) (simp_all add: chosen_vector_def like_ex_size)
  have nm: "names_accepted ?eng solved_ex" by (simp add: names_accepted_ex)
  have tr: "[(call_ex (13 / 2), trial_failed 7), (call_ex 7, trial_failed 7),
             (call_ex 7, trial_failed 7)]
            = trial_trace ?eng solved_ex (nat 3) (first_guess ?eng rnd_half None solved_ex) 0"
    by (simp add: first_guess_ex numeral_3_eq_3 declared_call_ex chosen_vector_def like_ex_size)
  have su: "[] = filter stats_success (map snd
                [(call_ex (13 / 2), trial_failed 7), (call_ex 7, trial_failed 7),
                 (call_ex 7, trial_failed 7)])"
    by simp
  show ?thesis
    by (subst start_explicit [OF sn sp sz engine_answers_stub nm tr su]) (simp add: final_solver_def)
qed

lemma resolve_all_fail:
  "solve (stub_engine [trial_failed 7]) 0 rnd_half None None 3 solved_ex
   = Inr (solved_ex\<lparr>solved := False\<rparr>, Some (result_ex 2))"
  unfolding solve_def Solver_def
  by (simp add: Let_def solver_name_solved_ex run_all_fail) (simp add: solved_ex_def)

lemma rerun_ok_3:
  "start (stub_engine [trial_ok 3]) 0 rnd_half 1 None
     \<lparr>s_name = ''ipopt'', s_problem = Some solved_ex, solver_result = None\<rparr>
   = Inr (\<lparr>s_name = ''ipopt'',
           s_problem = Some (solved_ex\<lparr>solved := True, result := Some (result_ex 3)\<rparr>),
           solver_result = Some (trial_ok 3)\<rparr>,
          [Set_solved False, Invoke (call_ex (13 / 2)) (trial_ok 3), Set_solved True])"
proof -
  let ?eng = "stub_engine [trial_ok 3]"
  let ?s = "\<lparr>s_name = ''ipopt'', s_problem = Some solved_ex, solver_result = None\<rparr>"
  have sn: "s_name ?s = ''ipopt''" and sp: "s_problem ?s = Some solved_ex"
    by simp_all
  have sz: "engine_sized ?eng (length (decision_variables solved_ex))"
    by (rule engine_sized_stub) (simp_all add: chosen_vector_def like_ex_size)
  have nm: "names_accepted ?eng solved_ex" by (simp add: names_accepted_ex)
  have tr: "[(call_ex (13 / 2), trial_ok 3)]
            = trial_trace ?eng solved_ex (nat 1) (first_guess ?eng rnd_half None solved_ex) 0"
    by (simp add: first_guess_ex declared_call_ex)
  have su: "[trial_ok 3] = filter stats_success (map snd [(call_ex (13 / 2), trial_ok 3)])"
    by simp
  have am: "argmin [3] = Inr 0"
    by (simp add: argmin_def)
  show ?thesis
    by (subst start_explicit [OF sn sp sz engine_answers_stub nm tr su])
      (simp add: final_solver_def am outcome_ex)
qed

lemma successes_events:
  "successes (Set_solved a # map (\<lambda>(c, r). Invoke c r) new @ [Set_solved b])
   = filter stats_success (map snd new)"
  by (induction new) (auto simp: successes_def)

lemma events_nth_call:
  assumes "evs = Set_solved a # map (\<lambda>(c, r). Invoke c r) new @ [Set_solved b]"
    and "i < length new"
  shows "evs ! Suc i = Invoke (fst (new ! i)) (snd (new ! i))"
  using assms by (simp add: nth_append case_prod_beta)


lemma trace_5_2_3:
  "like_ex p \<Longrightarrow>
   trial_trace (stub_engine [trial_ok 5, trial_ok 2, trial_ok 3]) p 3 [Fin (13 / 2)] 0
   = [(call_ex (13 / 2), trial_ok 5), (call_ex 5, trial_ok 2), (call_ex 2, trial_ok 3)]"
  by (simp add: numeral_3_eq_3 declared_call_ex chosen_vector_def like_ex_size)


lemma rejected_name_raises:
  "\<not> identifier_name (Some ''total cost'')"
  "constraint_result (stub_engine table) p sr
     (Constraint (sym 0) NegInf PosInf (Some ''total cost'') None) = Inl RuntimeError"
  "objective_result (stub_engine table) p sr
     (Objective (sym 0) (Some ''total cost'') None) = Inl RuntimeError"
proof -
  show n: "\<not> identifier_name (Some ''total cost'')"
    by (simp add: identifier_name_def letter_def digit_def)
  show "constraint_result (stub_engine table) p sr
     (Constraint (sym 0) NegInf PosInf (Some ''total cost'') None) = Inl RuntimeError"
    using n by (simp add: constraint_result_def Constraint_def OptimizationComponent_def)
  show "objective_result (stub_engine table) p sr
     (Objective (sym 0) (Some ''total cost'') None) = Inl RuntimeError"
    using n by (simp add: objective_result_def Objective_def OptimizationComponent_def)
qed

lemma wrong_dimension_raises:
  "start (strict_engine [trial_ok 5]) 0 rnd_half 1 (Some [Fin 1, Fin 2]) solver_ex
   = Inl RuntimeError"
  by (simp add: start_def ipopt_start_def solver_ex_def set_solved_def trial_body_def
      call_engine_def strict_engine_def Let_def problem_ex_def
      lower_bounds_decision_variables_def)


section \<open>The trial loop\<close>

text \<open>
  Claim C4. A call of \<open>start\<close> with \<open>trials \<ge> 1\<close> first resets the solved flag to
  false and then invokes the engine exactly \<open>trials\<close> times, one call after the other,
  whether or not a trial succeeds; only then is the solved flag written again. Every
  recorded result is the answer of the engine to the recorded call, and the calls are those
  of \<open>trial_trace\<close>, each made from the engine state the call before it left. This is
  the record of every run that returns; the witness is the run of the stub with three
  successful trials, none of which ends the sequence.
\<close>

theorem start_runs_every_trial:
  assumes "start eng e0 rnd trials guess s = Inr (s', evs)"
    and "s_name s = ''ipopt''" and "s_problem s = Some p"
    and "1 \<le> trials"
  shows "\<exists>new.
           new = trial_trace eng p (nat trials) (first_guess eng rnd guess p) e0
         \<and> int (length new) = trials
         \<and> (\<forall>i<length new. \<exists>est est'. nlp_step eng est (fst (new ! i)) = Inr (snd (new ! i), est'))
         \<and> evs = Set_solved False # map (\<lambda>(c, r). Invoke c r) new
                  @ [Set_solved (successes evs \<noteq> [])]"
proof -
  from assms(1,2) have run: "ipopt_start eng e0 rnd trials guess s = Inr (s', evs)"
    by (simp add: start_ipopt)
  from ipopt_start_run [OF run assms(3)] obtain new where new:
    "new = trial_trace eng p (nat trials) (first_guess eng rnd guess p) e0"
    "length new = nat trials"
    "evs = Set_solved False # map (\<lambda>(c, r). Invoke c r) new
                @ [Set_solved (filter stats_success (map snd new) \<noteq> [])]"
    by blast
  have su: "successes evs = filter stats_success (map snd new)"
    by (subst new(3)) (rule successes_events)
  have len: "int (length new) = trials"
    using assms(4) new(2) by simp
  have ans: "\<forall>i<length new. \<exists>est est'. nlp_step eng est (fst (new ! i)) = Inr (snd (new ! i), est')"
  proof (intro allI impI)
    fix i assume "i < length new"
    then have "i < length (trial_trace eng p (nat trials) (first_guess eng rnd guess p) e0)"
      by (simp add: new(1))
    from trial_trace_answer [OF this]
    show "\<exists>est est'. nlp_step eng est (fst (new ! i)) = Inr (snd (new ! i), est')"
      unfolding new(1) [symmetric] by metis
  qed
  from new(1,3) su len ans show ?thesis
    by (intro exI [of _ new]) simp
qed

theorem start_runs_every_trial_witness:
  "start (stub_engine [trial_ok 5, trial_ok 2, trial_ok 3]) 0 rnd_half 3 None solver_ex
   = Inr (\<lparr>s_name = ''ipopt'',
           s_problem = Some (problem_ex\<lparr>solved := True, result := Some (result_ex 2)\<rparr>),
           solver_result = Some (trial_ok 2)\<rparr>,
          [Set_solved False, Invoke (call_ex (13 / 2)) (trial_ok 5), Invoke (call_ex 5) (trial_ok 2),
           Invoke (call_ex 2) (trial_ok 3), Set_solved True])
   \<and> s_name solver_ex = ''ipopt'' \<and> s_problem solver_ex = Some problem_ex \<and> (1::int) \<le> 3
   \<and> trial_trace (stub_engine [trial_ok 5, trial_ok 2, trial_ok 3]) problem_ex (nat 3)
        (first_guess (stub_engine [trial_ok 5, trial_ok 2, trial_ok 3]) rnd_half None problem_ex) 0
      = [(call_ex (13 / 2), trial_ok 5), (call_ex 5, trial_ok 2), (call_ex 2, trial_ok 3)]
   \<and> (\<exists>new. int (length new) = 3
         \<and> (\<forall>i<length new. \<exists>est est'.
               nlp_step (stub_engine [trial_ok 5, trial_ok 2, trial_ok 3]) est (fst (new ! i))
               = Inr (snd (new ! i), est'))
         \<and> [Set_solved False, Invoke (call_ex (13 / 2)) (trial_ok 5), Invoke (call_ex 5) (trial_ok 2),
             Invoke (call_ex 2) (trial_ok 3), Set_solved True]
            = Set_solved False # map (\<lambda>(c, r). Invoke c r) new @ [Set_solved True])"
proof -
  let ?eng = "stub_engine [trial_ok 5, trial_ok 2, trial_ok 3]"
  let ?evs = "[Set_solved False, Invoke (call_ex (13 / 2)) (trial_ok 5), Invoke (call_ex 5) (trial_ok 2),
             Invoke (call_ex 2) (trial_ok 3), Set_solved True]"
  have 1: "s_name solver_ex = ''ipopt''" and 2: "s_problem solver_ex = Some problem_ex"
    by (simp_all add: solver_ex_def)
  have 3: "(1::int) \<le> 3" by simp
  have su: "successes ?evs \<noteq> []" by (simp add: successes_def)
  have tr: "trial_trace ?eng problem_ex (nat 3) (first_guess ?eng rnd_half None problem_ex) 0
      = [(call_ex (13 / 2), trial_ok 5), (call_ex 5, trial_ok 2), (call_ex 2, trial_ok 3)]"
    by (simp add: first_guess_ex trace_5_2_3)
  from start_runs_every_trial [OF run_5_2_3 1 2 3] obtain new where n:
    "int (length new) = 3"
    "\<forall>i<length new. \<exists>est est'. nlp_step ?eng est (fst (new ! i)) = Inr (snd (new ! i), est')"
    "?evs = Set_solved False # map (\<lambda>(c, r). Invoke c r) new @ [Set_solved (successes ?evs \<noteq> [])]"
    by blast
  from n(3) su have "?evs = Set_solved False # map (\<lambda>(c, r). Invoke c r) new @ [Set_solved True]"
    by simp
  with n(1,2)
  have "\<exists>new. int (length new) = 3
         \<and> (\<forall>i<length new. \<exists>est est'. nlp_step ?eng est (fst (new ! i)) = Inr (snd (new ! i), est'))
         \<and> ?evs = Set_solved False # map (\<lambda>(c, r). Invoke c r) new @ [Set_solved True]"
    by (intro exI [of _ new]) blast
  with run_5_2_3 1 2 tr show ?thesis by simp
qed

text \<open>
  Claim C2. In a run with at least \<open>k + 2\<close> trials, the record holds the engine calls
  of the trials \<open>k + 1\<close> and \<open>k + 2\<close>, the earlier result is the answer of the engine
  to the earlier call, and the guess supplied to the later call is exactly the multiplier
  vector \<open>lam_x\<close> of that answer when the trial failed, and exactly its primal vector
  \<open>x\<close> when the trial succeeded (vectors with one entry per decision variable). The
  witness is the run of a stub whose first trial fails with multipliers 7 and whose second
  trial succeeds at 4.
\<close>

theorem warm_start_guess:
  assumes "start eng e0 rnd trials guess s = Inr (s', evs)"
    and "s_name s = ''ipopt''" and "s_problem s = Some p"
    and "engine_sized eng (length (decision_variables p))"
    and "int (Suc (Suc k)) \<le> trials"
  shows "\<exists>c r c' r' est est'.
           evs ! Suc k = Invoke c r \<and> nlp_step eng est c = Inr (r, est')
         \<and> evs ! Suc (Suc k) = Invoke c' r'
         \<and> x0 c' = map Fin (if stats_success r then res_x r else res_lam_x r)"
proof -
  from assms(1,2) have run: "ipopt_start eng e0 rnd trials guess s = Inr (s', evs)"
    by (simp add: start_ipopt)
  from ipopt_start_run [OF run assms(3)] obtain new b where new:
    "new = trial_trace eng p (nat trials) (first_guess eng rnd guess p) e0"
    "length new = nat trials"
    "evs = Set_solved False # map (\<lambda>(c, r). Invoke c r) new @ [Set_solved b]"
    by blast
  from assms(5) new(2) have k: "Suc k < length new" by simp
  then have k0: "k < length new" by simp
  have e1: "evs ! Suc k = Invoke (fst (new ! k)) (snd (new ! k))"
    using k0 by (intro events_nth_call [OF new(3)])
  have e2: "evs ! Suc (Suc k) = Invoke (fst (new ! Suc k)) (snd (new ! Suc k))"
    using k by (intro events_nth_call [OF new(3)])
  from k0 trial_trace_answer [of k eng p "nat trials" "first_guess eng rnd guess p" e0]
  obtain est est' where a: "nlp_step eng est (fst (new ! k)) = Inr (snd (new ! k), est')"
    unfolding new(1) [symmetric] by metis
  with assms(4) have "length (chosen_vector (snd (new ! k))) = length (decision_variables p)"
    unfolding engine_sized_def by blast
  with k trial_trace_next [of k eng p "nat trials" "first_guess eng rnd guess p" e0]
  have nx: "x0 (fst (new ! Suc k)) = map Fin (chosen_vector (snd (new ! k)))"
    unfolding new(1) [symmetric] by simp
  show ?thesis
    using e1 e2 a nx
    by (intro exI [of _ "fst (new ! k)"] exI [of _ "snd (new ! k)"]
        exI [of _ "fst (new ! Suc k)"] exI [of _ "snd (new ! Suc k)"]
        exI [of _ est] exI [of _ est'])
      (simp add: chosen_vector_def)
qed

theorem warm_start_guess_witness:
  "start (stub_engine [trial_failed 7, trial_ok 4, trial_ok 3]) 0 rnd_half 3 None solver_ex
   = Inr (\<lparr>s_name = ''ipopt'',
           s_problem = Some (problem_ex\<lparr>solved := True, result := Some (result_ex 3)\<rparr>),
           solver_result = Some (trial_ok 3)\<rparr>,
          [Set_solved False, Invoke (call_ex (13 / 2)) (trial_failed 7), Invoke (call_ex 7) (trial_ok 4),
           Invoke (call_ex 4) (trial_ok 3), Set_solved True])
   \<and> engine_sized (stub_engine [trial_failed 7, trial_ok 4, trial_ok 3])
        (length (decision_variables problem_ex))
   \<and> x0 (call_ex 7) = map Fin (res_lam_x (trial_failed 7))
   \<and> x0 (call_ex 4) = map Fin (res_x (trial_ok 4))"
proof -
  let ?eng = "stub_engine [trial_failed 7, trial_ok 4, trial_ok 3]"
  have 1: "s_name solver_ex = ''ipopt''" and 2: "s_problem solver_ex = Some problem_ex"
    by (simp_all add: solver_ex_def)
  have 3: "engine_sized ?eng (length (decision_variables problem_ex))"
    by (rule engine_sized_stub) (simp_all add: chosen_vector_def like_ex_size)
  have "int (Suc (Suc 0)) \<le> 3" by simp
  from warm_start_guess [OF run_fail_ok_ok 1 2 3 this]
  have a: "x0 (call_ex 7) = map Fin (res_lam_x (trial_failed 7))"
    by auto
  have "int (Suc (Suc 1)) \<le> 3" by simp
  from warm_start_guess [OF run_fail_ok_ok 1 2 3 this]
  have b: "x0 (call_ex 4) = map Fin (res_x (trial_ok 4))"
    by auto
  from a b 3 run_fail_ok_ok show ?thesis by simp
qed

section \<open>Selection of the best trial\<close>

text \<open>
  Claim C3. When at least one trial succeeds, the canonical solution is the successful
  trial with the least objective value, the earliest one among equals, and the problem is
  marked solved. The witness is the stub with objective values 5, 2, 3 over three trials:
  the trial with value 2 is selected.
\<close>

theorem best_trial_selected:
  assumes "start eng e0 rnd trials guess s = Inr (s', evs)"
    and "s_name s = ''ipopt''"
    and "successes evs \<noteq> []"
  shows "\<exists>i p'. i < length (successes evs)
           \<and> solver_result s' = Some (successes evs ! i)
           \<and> (\<forall>j<length (successes evs). res_f (successes evs ! i) \<le> res_f (successes evs ! j))
           \<and> (\<forall>j<i. res_f (successes evs ! i) < res_f (successes evs ! j))
           \<and> s_problem s' = Some p' \<and> solved p'"
proof -
  from assms(1,2) have run: "ipopt_start eng e0 rnd trials guess s = Inr (s', evs)"
    by (simp add: start_ipopt)
  then obtain p where sp: "s_problem s = Some p"
    by (cases "s_problem s") (simp_all add: ipopt_start_def)
  from ipopt_start_run [OF run sp] obtain new where new:
    "evs = Set_solved False # map (\<lambda>(c, r). Invoke c r) new
                @ [Set_solved (filter stats_success (map snd new) \<noteq> [])]"
    "filter stats_success (map snd new) \<noteq> []
            \<longrightarrow> (\<exists>i. argmin (map res_f (filter stats_success (map snd new))) = Inr i
                   \<and> i < length (filter stats_success (map snd new))
                   \<and> s' = s\<lparr>solver_result := Some (filter stats_success (map snd new) ! i),
                            s_problem := Some (p\<lparr>solved := True,
                              result := Some (outcome eng p (filter stats_success (map snd new) ! i))\<rparr>)\<rparr>)"
    by blast
  define succ where "succ = filter stats_success (map snd new)"
  have se: "successes evs = succ"
    unfolding succ_def by (subst new(1)) (rule successes_events)
  with assms(3) have ne: "succ \<noteq> []" by simp
  with new(2) obtain i where i: "argmin (map res_f succ) = Inr i" "i < length succ"
    "s' = s\<lparr>solver_result := Some (succ ! i),
            s_problem := Some (p\<lparr>solved := True, result := Some (outcome eng p (succ ! i))\<rparr>)\<rparr>"
    unfolding succ_def by blast
  from ne have "map res_f succ \<noteq> []" by simp
  from argmin_first_minimum [OF this] i(1)
  have m: "\<forall>j<length succ. res_f (succ ! i) \<le> res_f (succ ! j)"
    "\<forall>j<i. res_f (succ ! i) < res_f (succ ! j)"
    using i(2) by auto
  show ?thesis
    unfolding se using i(2,3) m
    by (intro exI [of _ i] exI [of _ "p\<lparr>solved := True, result := Some (outcome eng p (succ ! i))\<rparr>"]) simp
qed

theorem best_trial_selected_witness:
  "successes [Set_solved False, Invoke (call_ex (13 / 2)) (trial_ok 5), Invoke (call_ex 5) (trial_ok 2),
           Invoke (call_ex 2) (trial_ok 3), Set_solved True] = [trial_ok 5, trial_ok 2, trial_ok 3]
   \<and> (\<exists>s' evs i p'. start (stub_engine [trial_ok 5, trial_ok 2, trial_ok 3]) 0 rnd_half 3 None solver_ex = Inr (s', evs)
         \<and> i < length (successes evs)
         \<and> solver_result s' = Some (successes evs ! i)
         \<and> solver_result s' = Some (trial_ok 2)
         \<and> (\<forall>j<length (successes evs). res_f (successes evs ! i) \<le> res_f (successes evs ! j))
         \<and> (\<forall>j<i. res_f (successes evs ! i) < res_f (successes evs ! j))
         \<and> s_problem s' = Some p' \<and> solved p')"
proof -
  let ?evs = "[Set_solved False, Invoke (call_ex (13 / 2)) (trial_ok 5), Invoke (call_ex 5) (trial_ok 2),
           Invoke (call_ex 2) (trial_ok 3), Set_solved True]"
  have sn: "s_name solver_ex = ''ipopt''" by (simp add: solver_ex_def)
  have su: "successes ?evs = [trial_ok 5, trial_ok 2, trial_ok 3]"
    by (simp add: successes_def)
  then have ne: "successes ?evs \<noteq> []" by simp
  from best_trial_selected [OF run_5_2_3 sn ne] su run_5_2_3 show ?thesis
    by (simp del: One_nat_def)
qed

section \<open>Extraction after the solve\<close>






text \<open>
  Claim C8. After any solve, successful or not, every decision-variable component of the
  result has both active-bound flags false, also when the optimal value lies on a bound:
  a successful run writes fresh components whose flags are never set, and a failed run
  leaves the result as it was (so the statement is an invariant of \<open>start\<close>).
\<close>

theorem decision_variable_flags_stay_false:
  assumes "start eng e0 rnd trials guess s = Inr (s', evs)"
    and "s_problem s = Some p" and "s_problem s' = Some p'"
    and "\<forall>r0. result p = Some r0 \<longrightarrow>
           (\<forall>d0\<in>set (r_decision_variables r0). \<not> lower_bound_active d0 \<and> \<not> upper_bound_active d0)"
    and "result p' = Some r" and "d \<in> set (r_decision_variables r)"
  shows "\<not> lower_bound_active d \<and> \<not> upper_bound_active d"
proof (cases "s_name s = ''ipopt''")
  case False
  with assms(1) have "s' = s" by (simp add: start_def)
  with assms(2-6) show ?thesis by auto
next
  case True
  with assms(1) have run: "ipopt_start eng e0 rnd trials guess s = Inr (s', evs)"
    by (simp add: start_ipopt)
  from ipopt_start_run [OF run assms(2)] obtain succ where
    "succ = [] \<longrightarrow> s' = s\<lparr>s_problem := Some (p\<lparr>solved := False\<rparr>)\<rparr>"
    "succ \<noteq> [] \<longrightarrow> (\<exists>k. s' = s\<lparr>solver_result := Some (succ ! k),
                            s_problem := Some (p\<lparr>solved := True,
                              result := Some (outcome eng p (succ ! k))\<rparr>)\<rparr>)"
    by blast
  then consider (unsolved) "s' = s\<lparr>s_problem := Some (p\<lparr>solved := False\<rparr>)\<rparr>"
    | (solved) sel where "s' = s\<lparr>solver_result := Some sel,
            s_problem := Some (p\<lparr>solved := True, result := Some (outcome eng p sel)\<rparr>)\<rparr>"
    by (cases "succ = []") auto
  then show ?thesis
  proof cases
    case unsolved
    with assms(3) have "result p' = result p" by auto
    with assms(4-6) show ?thesis by auto
  next
    case solved
    with assms(3,5) have "r = outcome eng p sel" by auto
    with assms(6) show ?thesis
      by (auto simp: outcome_def dec_var_outcome_def)
  qed
qed

lemma result_ex_decision_variables:
  "r_decision_variables (result_ex v) =
     [\<lparr>rc_name = Some ''x'', rc_group = None, optimal_value = Some v,
       lower_bound_active = False, upper_bound_active = False\<rparr>]"
  by (simp add: result_ex_def)

theorem decision_variable_flags_stay_false_witness:
  "map lower_bound (decision_variables solved_ex) = [Fin 3]
   \<and> result solved_ex = Some (result_ex 2)
   \<and> map optimal_value (r_decision_variables (result_ex 3)) = [Some 3]
   \<and> \<not> lower_bound_active (hd (r_decision_variables (result_ex 3)))
   \<and> \<not> upper_bound_active (hd (r_decision_variables (result_ex 3)))"
proof -
  let ?s = "\<lparr>s_name = ''ipopt'', s_problem = Some solved_ex, solver_result = None\<rparr>"
  let ?p' = "solved_ex\<lparr>solved := True, result := Some (result_ex 3)\<rparr>"
  let ?s' = "\<lparr>s_name = ''ipopt'', s_problem = Some ?p', solver_result = Some (trial_ok 3)\<rparr>"
  have sp: "s_problem ?s = Some solved_ex" and sp': "s_problem ?s' = Some ?p'" by simp_all
  have prior: "\<forall>r0. result solved_ex = Some r0 \<longrightarrow>
           (\<forall>d0\<in>set (r_decision_variables r0). \<not> lower_bound_active d0 \<and> \<not> upper_bound_active d0)"
    by (simp add: solved_ex_def result_ex_decision_variables)
  have res: "result ?p' = Some (result_ex 3)" by simp
  have mem: "hd (r_decision_variables (result_ex 3)) \<in> set (r_decision_variables (result_ex 3))"
    by (simp add: result_ex_decision_variables)
  from decision_variable_flags_stay_false [OF rerun_ok_3 sp sp' prior res mem]
  show ?thesis
    by (simp add: solved_ex_def problem_ex_def result_ex_decision_variables
        DecisionVariable_def OptimizationComponent_def
        optimization_component.extend_def decision_variable.fields_def)
qed

section \<open>Guess synthesis\<close>







lemma exhausted_trials_outcome:
  assumes "start eng e0 rnd trials guess s = Inr (s', evs)"
    and "s_name s = ''ipopt''" and "s_problem s = Some p"
    and "successes evs = []"
  shows "s' = s\<lparr>s_problem := Some (p\<lparr>solved := False\<rparr>)\<rparr>"
proof -
  from assms(1,2) have run: "ipopt_start eng e0 rnd trials guess s = Inr (s', evs)"
    by (simp add: start_ipopt)
  from ipopt_start_run [OF run assms(3)] obtain new where new:
    "evs = Set_solved False # map (\<lambda>(c, r). Invoke c r) new
                @ [Set_solved (filter stats_success (map snd new) \<noteq> [])]"
    "filter stats_success (map snd new) = []
            \<longrightarrow> s' = s\<lparr>s_problem := Some (p\<lparr>solved := False\<rparr>)\<rparr>"
    by blast
  have "successes evs = filter stats_success (map snd new)"
    by (subst new(1)) (rule successes_events)
  with assms(4) new(2) show ?thesis by simp
qed

section \<open>Views of a result\<close>



lemma pf_less_irrefl: "\<not> pf_less b b"
  by (cases b) simp_all

section \<open>Bound validation\<close>

text \<open>
  Claim C5, as stated, says that constructing any component with an upper bound below its
  lower bound fails. The constructors do not look at the bounds: a constraint and a
  decision variable with bounds \<open>[5, 1]\<close> are constructed.
\<close>

theorem constructor_accepts_crossed_bounds:
  "pf_less (upper_bound (Constraint (sym 0) (Fin 5) (Fin 1) None None))
           (lower_bound (Constraint (sym 0) (Fin 5) (Fin 1) None None))
   \<and> pf_less (upper_bound (DecisionVariable (sym 0) (Fin 5) (Fin 1) None None False))
              (lower_bound (DecisionVariable (sym 0) (Fin 5) (Fin 1) None None False))"
  by (simp add: Constraint_def DecisionVariable_def OptimizationComponent_def
      optimization_component.extend_def decision_variable.fields_def)

text \<open>
  Claim C5, amended. The validation is done by the problem when a component is added:
  \<open>add_constraint\<close> and \<open>add_decision_variable\<close> fail with a ValueError when the
  upper bound is strictly below the lower bound, and succeed, appending a component with
  these bounds, when the two bounds are equal.
\<close>

theorem add_checks_bounds:
  "(pf_less ub lb \<longrightarrow>
      add_constraint equation lb ub nm grp p = Inl ValueError
      \<and> add_decision_variable vn lb ub grp p = Inl ValueError)
   \<and> (ub = lb \<longrightarrow>
      (\<exists>p'. add_constraint equation lb ub nm grp p = Inr p'
         \<and> length (constraints p') = Suc (length (constraints p))
         \<and> lower_bound (last (constraints p')) = lb
         \<and> upper_bound (last (constraints p')) = ub)
      \<and> (\<exists>p' x. add_decision_variable vn lb ub grp p = Inr (p', x)
         \<and> length (decision_variables p') = Suc (length (decision_variables p))
         \<and> lower_bound (last (decision_variables p')) = lb
         \<and> upper_bound (last (decision_variables p')) = ub))"
  by (simp add: add_constraint_def add_decision_variable_def check_bounds_def pf_less_irrefl
      Let_def Constraint_def DecisionVariable_def OptimizationComponent_def
      optimization_component.extend_def decision_variable.fields_def)

theorem add_checks_bounds_witness:
  "pf_less (Fin 1) (Fin 5)
   \<and> add_constraint (sym 0) (Fin 5) (Fin 1) None None problem_ex = Inl ValueError
   \<and> add_decision_variable ''y'' (Fin 5) (Fin 1) None problem_ex = Inl ValueError
   \<and> (\<exists>p'. add_constraint (sym 0) (Fin 4) (Fin 4) None None problem_ex = Inr p'
         \<and> length (constraints p') = Suc (length (constraints problem_ex))
         \<and> lower_bound (last (constraints p')) = Fin 4
         \<and> upper_bound (last (constraints p')) = Fin 4)
   \<and> (\<exists>p' x. add_decision_variable ''y'' (Fin 4) (Fin 4) None problem_ex = Inr (p', x)
         \<and> length (decision_variables p') = Suc (length (decision_variables problem_ex))
         \<and> lower_bound (last (decision_variables p')) = Fin 4
         \<and> upper_bound (last (decision_variables p')) = Fin 4)"
  using add_checks_bounds [of "Fin 1" "Fin 5" "sym 0" None None problem_ex "''y''"]
    add_checks_bounds [of "Fin 4" "Fin 4" "sym 0" None None problem_ex "''y''"]
  by simp

section \<open>Where the code departs from its documentation\<close>

text \<open>
  Claim C1 says that the four active-bound extraction methods return the boolean flags of
  the result components. On the result of the example with optimum 3 the constraint has
  \<open>lower_bound_active = True\<close> and \<open>upper_bound_active = False\<close>, yet every one of
  the methods returns the optimal value 3.0, as a list and as a dict alike: the two flag
  extractors are copies of the value extractor.
\<close>

theorem active_bound_extraction_returns_values:
  "active_lower_bounds_constraints False None (result_ex 3) = As_list [PyFloat 3]
   \<and> map lower_bound_active (r_constraints (result_ex 3)) = [True]
   \<and> active_upper_bounds_constraints False None (result_ex 3) = As_list [PyFloat 3]
   \<and> map upper_bound_active (r_constraints (result_ex 3)) = [False]
   \<and> active_lower_bounds_decision_variables False None (result_ex 3) = As_list [PyFloat 3]
   \<and> active_upper_bounds_decision_variables False None (result_ex 3) = As_list [PyFloat 3]
   \<and> active_lower_bounds_constraints True None (result_ex 3)
       = As_dict [Some ''Constraint_1'' \<mapsto> PyFloat 3]"
  by (simp add: active_lower_bounds_constraints_def active_upper_bounds_constraints_def
      active_lower_bounds_decision_variables_def active_upper_bounds_decision_variables_def
      extract_active_lower_bound_def extract_active_upper_bound_def result_ex_def Let_def)

text \<open>
  Claim C6 says that when every trial fails, \<open>start\<close> ends normally with the problem
  unsolved and its result \<open>None\<close>. Solving the example once (optimum 2) and then again
  with an engine that fails three times ends normally and unsolved, but the result is
  still the one of the first solve, and \<open>solve\<close> returns it.
\<close>

theorem failed_resolve_keeps_old_result:
  "solve (stub_engine [trial_ok 5, trial_ok 2, trial_ok 3]) 0 rnd_half None None 3 problem_ex
     = Inr (solved_ex, Some (result_ex 2))
   \<and> solve (stub_engine [trial_failed 7]) 0 rnd_half None None 3 solved_ex
     = Inr (solved_ex\<lparr>solved := False\<rparr>, Some (result_ex 2))
   \<and> \<not> solved (solved_ex\<lparr>solved := False\<rparr>)
   \<and> result (solved_ex\<lparr>solved := False\<rparr>) = Some (result_ex 2)"
  using first_solve_ex resolve_all_fail by (simp add: solved_ex_def)

end
